theory Spec2Isabelle
  imports Complex_Main "HOL-Library.Multiset"
begin

section \<open>Data model\<close>

text \<open>
  The health and auth statuses are string literals in the JavaScript source
  (\<^verbatim>\<open>'healthy'\<close>, \<^verbatim>\<open>'degraded'\<close>, \<^verbatim>\<open>'unhealthy'\<close>, \<^verbatim>\<open>'down'\<close>, \<^verbatim>\<open>'unknown'\<close> and
  \<^verbatim>\<open>'open'\<close>, \<^verbatim>\<open>'protected'\<close>, \<^verbatim>\<open>'unknown'\<close>). They are modelled as enumerations, so the
  fallbacks \<^verbatim>\<open>?? 4\<close> and \<^verbatim>\<open>|| 'gray'\<close> of \<^verbatim>\<open>server.js\<close> for strings outside the five
  statuses have no counterpart here.
\<close>

datatype health = Healthy | Degraded | Unhealthy | Down | Unknown

datatype authStatus = Open | Protected | AuthUnknown

datatype color = Red | Orange | Yellow | Gray | Green

section \<open>Status priority (server.js, lines 240-250)\<close>

fun STATUS_PRIORITY :: "health \<Rightarrow> nat" where
  "STATUS_PRIORITY Down = 0"
| "STATUS_PRIORITY Unhealthy = 1"
| "STATUS_PRIORITY Degraded = 2"
| "STATUS_PRIORITY Healthy = 3"
| "STATUS_PRIORITY Unknown = 4"

text \<open>The body of the \<^verbatim>\<open>for (const s of statuses)\<close> loop, with the variable \<^verbatim>\<open>worst\<close> as accumulator.\<close>

fun worstStatus_loop :: "health \<Rightarrow> health list \<Rightarrow> health" where
  "worstStatus_loop worst [] = worst"
| "worstStatus_loop worst (s # statuses) =
     worstStatus_loop (if STATUS_PRIORITY s < STATUS_PRIORITY worst then s else worst) statuses"

definition worstStatus :: "health list \<Rightarrow> health" where
  "worstStatus statuses = worstStatus_loop Unknown statuses"

section \<open>Strings and numbers of the runtime\<close>

text \<open>\<^verbatim>\<open>String.prototype.includes\<close>: the second string occurs as a contiguous part of the first.\<close>

fun str_includes :: "string \<Rightarrow> string \<Rightarrow> bool" where
  "str_includes [] sub = (sub = [])"
| "str_includes (c # cs) sub = (take (length sub) (c # cs) = sub \<or> str_includes cs sub)"

text \<open>The decimal text that a template literal \<^verbatim>\<open>${n}\<close> gives for an integer.\<close>

function showNat :: "nat \<Rightarrow> string" where
  "showNat n = (if n < 10 then [''0123456789'' ! n]
                else showNat (n div 10) @ [''0123456789'' ! (n mod 10)])"
  by pat_completeness auto
termination
  by (relation "measure id") auto

declare showNat.simps [simp del]

definition showInt :: "int \<Rightarrow> string" where
  "showInt i = (if i < 0 then ''-'' @ showNat (nat (- i)) else showNat (nat i))"

text \<open>
  JavaScript numbers are IEEE 754 doubles. A finite double is modelled by the rational number
  it denotes, and an arithmetic operation by the exact operation followed by \<open>toDouble\<close>, the
  rounding to the nearest number with a 53-bit significand, ties to the even significand.
  Overflow and subnormal numbers are left out: the quotients and products computed below lie
  between \<open>2 ^ -1022\<close> and \<open>2 ^ 1024\<close>.
\<close>

definition pow2 :: "int \<Rightarrow> rat" where
  "pow2 e = (if 0 \<le> e then 2 ^ nat e else 1 / 2 ^ nat (- e))"

text \<open>The binary exponent \<open>e\<close> of a positive number: \<open>2 ^ e \<le> x < 2 ^ (e + 1)\<close>.\<close>

function binExp :: "rat \<Rightarrow> int" where
  "binExp x = (if x \<le> 0 then 0
               else if x < 1 then binExp (2 * x) - 1
               else if 2 \<le> x then binExp (x / 2) + 1
               else 0)"
  by pat_completeness auto
termination
proof (relation "measure (\<lambda>x. if x < 1 then nat \<lfloor>1 / x\<rfloor> + 1 else nat \<lfloor>x\<rfloor>)")
  show "wf (measure (\<lambda>x::rat. if x < 1 then nat \<lfloor>1 / x\<rfloor> + 1 else nat \<lfloor>x\<rfloor>))"
    by simp
next
  fix x :: rat
  assume pos: "\<not> x \<le> 0" and lt: "x < 1"
  from pos have x0: "0 < x" by simp
  show "(2 * x, x) \<in> measure (\<lambda>x. if x < 1 then nat \<lfloor>1 / x\<rfloor> + 1 else nat \<lfloor>x\<rfloor>)"
  proof (cases "2 * x < 1")
    case True
    define y where "y = 1 / x"
    from x0 True have big: "2 < y" by (simp add: y_def field_simps)
    have half: "1 / (2 * x) = y / 2" by (simp add: y_def)
    have "y / 2 < y - 1" using big by simp
    also have "y - 1 < of_int \<lfloor>y\<rfloor>" by linarith
    finally have "y / 2 < of_int \<lfloor>y\<rfloor>" .
    then have less: "\<lfloor>y / 2\<rfloor> < \<lfloor>y\<rfloor>" by (simp add: floor_less_iff)
    have "0 \<le> \<lfloor>y / 2\<rfloor>" using big by simp
    with less have "nat \<lfloor>y / 2\<rfloor> < nat \<lfloor>y\<rfloor>" by linarith
    then have "nat \<lfloor>1 / (2 * x)\<rfloor> + 1 < nat \<lfloor>1 / x\<rfloor> + 1"
      unfolding half y_def by simp
    then show ?thesis using True lt by (simp only: in_measure if_True)
  next
    case False
    then have "2 * x < 2" "1 \<le> 2 * x" using lt by simp_all
    then have f: "\<lfloor>2 * x\<rfloor> = 1" by linarith
    have "1 < 1 / x" using x0 lt by (simp add: field_simps)
    then have "1 \<le> \<lfloor>1 / x\<rfloor>" by linarith
    then show ?thesis using False lt f by simp
  qed
next
  fix x :: rat
  assume pos: "\<not> x \<le> 0" and nlt: "\<not> x < 1" and ge: "2 \<le> x"
  have "x / 2 \<le> x - 1" using ge by simp
  also have "x - 1 < of_int \<lfloor>x\<rfloor>" by linarith
  finally have "x / 2 < of_int \<lfloor>x\<rfloor>" .
  then have "\<lfloor>x / 2\<rfloor> < \<lfloor>x\<rfloor>" by (simp add: floor_less_iff)
  moreover have "0 \<le> \<lfloor>x / 2\<rfloor>" using ge by simp
  moreover have "\<not> x / 2 < 1" using ge by simp
  ultimately show "(x / 2, x) \<in> measure (\<lambda>x. if x < 1 then nat \<lfloor>1 / x\<rfloor> + 1 else nat \<lfloor>x\<rfloor>)"
    using nlt by simp
qed

declare binExp.simps [simp del]

definition roundHalfEven :: "rat \<Rightarrow> int" where
  "roundHalfEven y =
     (let f = \<lfloor>y\<rfloor>; r = y - of_int f
      in if r < 1 / 2 then f else if 1 / 2 < r then f + 1 else if even f then f else f + 1)"

definition toDouble :: "rat \<Rightarrow> rat" where
  "toDouble x =
     (if x = 0 then 0
      else let ulp = pow2 (binExp \<bar>x\<bar> - 52)
           in sgn x * of_int (roundHalfEven (\<bar>x\<bar> / ulp)) * ulp)"

text \<open>\<^verbatim>\<open>Math.round\<close>: the nearest integer, a tie going towards plus infinity.\<close>

definition jsMathRound :: "rat \<Rightarrow> int" where
  "jsMathRound x = \<lfloor>x + 1 / 2\<rfloor>"

section \<open>The prober (prober.js)\<close>

record serverConfig =
  url :: string
  transport :: string
  expectAuth :: bool

text \<open>
  What \<^verbatim>\<open>doProbe\<close> returns, and a CheckResult: the same object with the \<^verbatim>\<open>timestamp\<close> that
  \<^verbatim>\<open>probeServer\<close> puts in front of it (\<^verbatim>\<open>{ timestamp, ...result }\<close>).
\<close>

record probeOutcome =
  status :: health
  auth :: authStatus
  latencyMs :: "int option"
  toolCount :: "nat option"
  error :: "string option"

record CheckResult = probeOutcome +
  timestamp :: int

definition withTimestamp :: "int \<Rightarrow> probeOutcome \<Rightarrow> CheckResult" where
  "withTimestamp ts result = probeOutcome.extend result (CheckResult.fields ts)"

text \<open>
  A thrown \<^verbatim>\<open>Error\<close> object, by what the code reads of it: \<^verbatim>\<open>err.message\<close>, \<^verbatim>\<open>err.name\<close> (read by
  \<^verbatim>\<open>String(err)\<close>), \<^verbatim>\<open>err.constructor?.name\<close>, \<^verbatim>\<open>err.code\<close> when it is a number (\<open>None\<close> when it is
  absent or not a number: every comparison of the code with a number is then false) and
  \<^verbatim>\<open>err.cause?.code\<close>.
\<close>

record jsError =
  message :: string
  name :: string
  ctorName :: string
  code :: "int option"
  causeCode :: "string option"

text \<open>\<^verbatim>\<open>String(err)\<close>, that is \<^verbatim>\<open>Error.prototype.toString\<close>.\<close>

definition errorToString :: "jsError \<Rightarrow> string" where
  "errorToString err =
     (if name err = [] then message err
      else if message err = [] then name err
      else name err @ '': '' @ message err)"

text \<open>\<^verbatim>\<open>err.message || String(err)\<close>\<close>

definition errText :: "jsError \<Rightarrow> string" where
  "errText err = (if message err \<noteq> [] then message err else errorToString err)"

definition codeBetween :: "int option \<Rightarrow> int \<Rightarrow> int \<Rightarrow> bool" where
  "codeBetween c lo hi = (case c of None \<Rightarrow> False | Some n \<Rightarrow> lo \<le> n \<and> n < hi)"

definition showCode :: "int option \<Rightarrow> string" where
  "showCode c = (case c of None \<Rightarrow> ''undefined'' | Some n \<Rightarrow> showInt n)"

definition classifyConnectError :: "jsError \<Rightarrow> serverConfig \<Rightarrow> probeOutcome" where
  "classifyConnectError err serverConfig =
     (let msg = errText err; code = code err
      in if code = Some 401 \<or> code = Some 403 \<or>
            ctorName err = ''UnauthorizedError'' \<or>
            str_includes msg ''401'' \<or> str_includes msg ''Unauthorized'' \<or>
            str_includes msg ''403'' \<or> str_includes msg ''Forbidden''
         then \<lparr>status = Healthy, auth = Protected, latencyMs = None, toolCount = None,
               error = None\<rparr>
         else if codeBetween code 500 600
         then \<lparr>status = Down,
               auth = (if expectAuth serverConfig then Protected else AuthUnknown),
               latencyMs = None, toolCount = None,
               error = Some (''HTTP '' @ showCode code @ '': '' @ msg)\<rparr>
         else if causeCode err = Some ''ECONNREFUSED'' \<or> causeCode err = Some ''ENOTFOUND'' \<or>
                 causeCode err = Some ''ECONNRESET'' \<or> causeCode err = Some ''ETIMEDOUT'' \<or>
                 str_includes msg ''fetch failed'' \<or> str_includes msg ''ECONNREFUSED'' \<or>
                 str_includes msg ''ENOTFOUND''
         then \<lparr>status = Down,
               auth = (if expectAuth serverConfig then Protected else AuthUnknown),
               latencyMs = None, toolCount = None, error = Some msg\<rparr>
         else if codeBetween code 300 500 \<and> code \<noteq> Some 401 \<and> code \<noteq> Some 403
         then \<lparr>status = Unhealthy,
               auth = (if expectAuth serverConfig then Protected else Open),
               latencyMs = None, toolCount = None,
               error = Some (''HTTP '' @ showCode code @ '': '' @ msg)\<rparr>
         else \<lparr>status = Unhealthy,
               auth = (if expectAuth serverConfig then Protected else Open),
               latencyMs = None, toolCount = None, error = Some msg\<rparr>)"

text \<open>
  What the network and the clock do during one call of \<^verbatim>\<open>probeServer\<close>:
  \<^item> \<open>urlValid\<close>: \<^verbatim>\<open>new URL(serverConfig.url)\<close> returns (it throws otherwise);
  \<^item> \<open>connect\<close>: the error thrown by the construction of the transport or by
    \<^verbatim>\<open>client.connect\<close> (the initialize handshake), \<open>None\<close> when the handshake succeeds;
  \<^item> \<open>ping\<close>: the error thrown by \<^verbatim>\<open>client.ping()\<close>, \<open>None\<close> when it succeeds;
  \<^item> \<open>pingElapsed\<close>: \<^verbatim>\<open>Date.now() - pingStart\<close> when the ping has settled;
  \<^item> \<open>listTools\<close>: the error thrown by \<^verbatim>\<open>client.listTools()\<close>, or the length of
    \<^verbatim>\<open>result.tools\<close> (\<open>None\<close> when the result has no \<^verbatim>\<open>tools\<close>);
  \<^item> \<open>timedOut\<close>: the timer of \<^verbatim>\<open>timeout(PROBE_TIMEOUT_MS)\<close> fires before \<^verbatim>\<open>doProbe\<close> settles;
  \<^item> \<open>tookMs\<close>: the milliseconds between the call and the moment its promise is settled.
  The \<^verbatim>\<open>finally\<close> block of \<^verbatim>\<open>doProbe\<close> closes the connection, swallows what that throws and
  changes no result; it is part of \<open>tookMs\<close> only.
\<close>

record probeEnv =
  urlValid :: bool
  connect :: "jsError option"
  ping :: "jsError option"
  pingElapsed :: int
  listTools :: "jsError + nat option"
  timedOut :: bool
  tookMs :: nat

text \<open>The \<^verbatim>\<open>TypeError\<close> that \<^verbatim>\<open>new URL\<close> throws in Node.js.\<close>

definition invalidUrlError :: jsError where
  "invalidUrlError = \<lparr>message = ''Invalid URL'', name = ''TypeError'', ctorName = ''TypeError'',
     code = None, causeCode = Some ''ERR_INVALID_URL''\<rparr>"

definition doProbe :: "serverConfig \<Rightarrow> probeEnv \<Rightarrow> jsError + probeOutcome" where
  "doProbe serverConfig env =
     (if \<not> urlValid env then Inl invalidUrlError
      else case connect env of
        Some err \<Rightarrow> Inr (classifyConnectError err serverConfig)
      | None \<Rightarrow>
          (case ping env of
             Some pingErr \<Rightarrow>
               Inr \<lparr>status = Degraded, auth = Open, latencyMs = Some (pingElapsed env),
                    toolCount = None, error = Some (''ping failed: '' @ message pingErr)\<rparr>
           | None \<Rightarrow>
               (let latencyMs = pingElapsed env
                in case listTools env of
                     Inl toolsErr \<Rightarrow>
                       Inr \<lparr>status = Unhealthy, auth = Open, latencyMs = Some latencyMs,
                            toolCount = None,
                            error = Some (''tools/list failed: '' @ message toolsErr)\<rparr>
                   | Inr tools \<Rightarrow>
                       (let toolCount = (case tools of Some n \<Rightarrow> n | None \<Rightarrow> 0)
                        in Inr \<lparr>status = (if latencyMs > 2000 then Degraded
                                          else (if latencyMs > 500 then Degraded else Healthy)),
                                auth = Open, latencyMs = Some latencyMs,
                                toolCount = Some toolCount, error = None\<rparr>))))"

definition timeoutError :: "int \<Rightarrow> jsError" where
  "timeoutError ms = \<lparr>message = ''Probe timed out after '' @ showInt ms @ ''ms'',
     name = ''Error'', ctorName = ''Error'', code = None, causeCode = None\<rparr>"

text \<open>\<^verbatim>\<open>Promise.race([doProbe(serverConfig), timeout(PROBE_TIMEOUT_MS)])\<close>\<close>

definition raceTimeout :: "int \<Rightarrow> probeEnv \<Rightarrow> jsError + probeOutcome \<Rightarrow> jsError + probeOutcome" where
  "raceTimeout ms env settled = (if timedOut env then Inl (timeoutError ms) else settled)"

text \<open>
  \<^verbatim>\<open>probeServer\<close>; the last argument is the value of \<^verbatim>\<open>Date.now()\<close> in its first statement.
\<close>

definition probeServer :: "int \<Rightarrow> serverConfig \<Rightarrow> probeEnv \<Rightarrow> int \<Rightarrow> CheckResult" where
  "probeServer PROBE_TIMEOUT_MS serverConfig env timestamp' =
     (case raceTimeout PROBE_TIMEOUT_MS env (doProbe serverConfig env) of
        Inr result \<Rightarrow> withTimestamp timestamp' result
      | Inl err \<Rightarrow>
          \<lparr>status = Down,
           auth = (if expectAuth serverConfig then Protected else AuthUnknown),
           latencyMs = None, toolCount = None, error = Some (errText err),
           timestamp = timestamp'\<rparr>)"

section \<open>The server (server.js)\<close>

record remote = serverConfig +
  remoteName :: string

record provider =
  registryName :: string
  registryVersion :: string
  displayName :: string
  sseOnly :: bool
  remotes :: "remote list"

definition HISTORY_MAX_AGE_MS :: int where
  "HISTORY_MAX_AGE_MS = 24 * 60 * 60 * 1000"

text \<open>
  The configuration read from the process environment and the two sources of
  nondeterminism: \<open>net n\<close> is what the network does during the \<open>n\<close>-th call of \<^verbatim>\<open>probeServer\<close>
  (counted from 0), \<open>random d\<close> decides the \<open>d\<close>-th call of \<^verbatim>\<open>Math.random()\<close>: an index drawn
  for the bound \<open>i + 1\<close> is \<open>random d mod (i + 1)\<close>, which is any of \<open>0, \<dots>, i\<close>, as
  \<^verbatim>\<open>Math.floor(Math.random() * (i + 1))\<close> is.
\<close>

record runtime =
  PROBE_TIMEOUT_MS :: int
  PROBE_INTERVAL_MS :: int
  net :: "nat \<Rightarrow> probeEnv"
  random :: "nat \<Rightarrow> nat"

text \<open>
  The state of the process: the module variables of \<^verbatim>\<open>server.js\<close>, the clock read by
  \<^verbatim>\<open>Date.now()\<close> (\<open>now\<close>), the configurations handed to \<^verbatim>\<open>probeServer\<close> so far, in order
  (\<open>probed\<close>, the probe-invocation counter of a test), and the number of calls of
  \<^verbatim>\<open>Math.random()\<close> so far (\<open>draws\<close>). Times are milliseconds since the epoch; the clock moves
  only while a probe is awaited.
\<close>

record world =
  history :: "string \<rightharpoonup> CheckResult list"
  lastCheckTime :: "int option"
  nextCheckTime :: "int option"
  probeInProgress :: bool
  probeStartedAt :: "int option"
  skipCount :: nat
  now :: int
  probed :: "serverConfig list"
  draws :: nat

definition historyKey :: "string \<Rightarrow> string \<Rightarrow> string" where
  "historyKey registryName' url' = registryName' @ ''|'' @ url'"

text \<open>Lines 52-57: an empty series for every remote of every provider.\<close>

definition initHistory :: "provider list \<Rightarrow> (string \<rightharpoonup> CheckResult list)" where
  "initHistory providers =
     foldl (\<lambda>h provider.
              foldl (\<lambda>h remote. h(historyKey (registryName provider) (url remote) \<mapsto> []))
                h (remotes provider))
       Map.empty providers"

text \<open>
  \<^verbatim>\<open>loadHistory\<close>. The argument is the content of the history file as \<^verbatim>\<open>Object.entries\<close> lists
  it, \<open>None\<close> when the file does not exist or cannot be read (the exception is caught and the
  history is left as it is).
\<close>

fun loadEntries ::
  "int \<Rightarrow> (string \<times> CheckResult list) list \<Rightarrow> (string \<rightharpoonup> CheckResult list)
   \<Rightarrow> (string \<rightharpoonup> CheckResult list)" where
  "loadEntries cutoff [] h = h"
| "loadEntries cutoff ((key, checks) # entries) h =
     loadEntries cutoff entries
       (if h key \<noteq> None then h(key \<mapsto> filter (\<lambda>c. timestamp c > cutoff) checks) else h)"

definition loadHistory :: "(string \<times> CheckResult list) list option \<Rightarrow> world \<Rightarrow> world" where
  "loadHistory file w =
     (case file of
        None \<Rightarrow> w
      | Some data \<Rightarrow>
          (let cutoff = now w - HISTORY_MAX_AGE_MS
           in w\<lparr>history := loadEntries cutoff data (history w)\<rparr>))"

text \<open>The Fisher-Yates shuffle; the second component is the number of draws made so far.\<close>

fun shuffle_loop :: "(nat \<Rightarrow> nat) \<Rightarrow> nat \<Rightarrow> nat \<Rightarrow> 'a list \<Rightarrow> 'a list \<times> nat" where
  "shuffle_loop rnd d 0 a = (a, d)"
| "shuffle_loop rnd d (Suc i') a =
     (let i = Suc i'; j = rnd d mod (i + 1)
      in shuffle_loop rnd (d + 1) i' (a[i := a ! j, j := a ! i]))"

definition shuffle :: "(nat \<Rightarrow> nat) \<Rightarrow> nat \<Rightarrow> 'a list \<Rightarrow> 'a list \<times> nat" where
  "shuffle rnd d arr = shuffle_loop rnd d (length arr - 1) arr"

text \<open>\<^verbatim>\<open>while (checks.length > 0 && checks[0].timestamp < cutoff) checks.shift()\<close>\<close>

fun trimOld :: "int \<Rightarrow> CheckResult list \<Rightarrow> CheckResult list" where
  "trimOld cutoff [] = []"
| "trimOld cutoff (c # checks) =
     (if timestamp c < cutoff then trimOld cutoff checks else c # checks)"

text \<open>\<^verbatim>\<open>recordResult\<close>, without its line of log output.\<close>

definition recordResult :: "string \<Rightarrow> string \<Rightarrow> CheckResult \<Rightarrow> int \<Rightarrow> world \<Rightarrow> world" where
  "recordResult registryName' url' result cutoff w =
     (let key = historyKey registryName' url'
      in case history w key of
           None \<Rightarrow> w
         | Some checks \<Rightarrow> w\<lparr>history := (history w)(key \<mapsto> trimOld cutoff (checks @ [result]))\<rparr>)"

text \<open>
  \<^verbatim>\<open>probeRemote\<close>: the call of \<^verbatim>\<open>probeServer\<close> and the wait for its result, during which the
  clock advances. \<open>remoteConfig\<close> is the object that it hands to \<^verbatim>\<open>probeServer\<close>.
\<close>

definition remoteConfig :: "remote \<Rightarrow> serverConfig" where
  "remoteConfig remote = \<lparr>url = url remote, transport = transport remote,
                           expectAuth = expectAuth remote\<rparr>"

definition probeRemote :: "runtime \<Rightarrow> provider \<Rightarrow> remote \<Rightarrow> world \<Rightarrow> CheckResult \<times> world" where
  "probeRemote rt provider remote w =
     (let serverConfig = remoteConfig remote;
          env = net rt (length (probed w));
          result = probeServer (PROBE_TIMEOUT_MS rt) serverConfig env (now w)
      in (result, w\<lparr>now := now w + int (tookMs env), probed := probed w @ [serverConfig]\<rparr>))"

text \<open>
  The result that \<^verbatim>\<open>probeMultiRemote\<close> records for a remote that it does not probe; the second
  argument is the value of \<^verbatim>\<open>Date.now()\<close>.
\<close>

definition shortCircuitResult :: "remote \<Rightarrow> int \<Rightarrow> CheckResult" where
  "shortCircuitResult remote now' =
     \<lparr>status = Unknown,
      auth = (if expectAuth remote then Protected else AuthUnknown),
      latencyMs = None, toolCount = None, error = Some ''short-circuited'',
      timestamp = now'\<rparr>"

text \<open>The \<^verbatim>\<open>for (const remote of shuffled)\<close> loop of \<^verbatim>\<open>probeMultiRemote\<close>.\<close>

fun probeMultiRemote_loop ::
  "runtime \<Rightarrow> provider \<Rightarrow> int \<Rightarrow> remote list \<Rightarrow> bool \<Rightarrow> world \<Rightarrow> world" where
  "probeMultiRemote_loop rt provider cutoff [] hitRed w = w"
| "probeMultiRemote_loop rt provider cutoff (remote # shuffled) hitRed w =
     (if hitRed then
        probeMultiRemote_loop rt provider cutoff shuffled hitRed
          (recordResult (registryName provider) (url remote)
             (shortCircuitResult remote (now w)) cutoff w)
      else
        (let (result, w1) = probeRemote rt provider remote w;
             w2 = recordResult (registryName provider) (url remote) result cutoff w1
         in probeMultiRemote_loop rt provider cutoff shuffled (status result = Down) w2))"

definition probeMultiRemote :: "runtime \<Rightarrow> provider \<Rightarrow> int \<Rightarrow> world \<Rightarrow> world" where
  "probeMultiRemote rt provider cutoff w =
     (let (shuffled, d) = shuffle (random rt) (draws w) (remotes provider)
      in probeMultiRemote_loop rt provider cutoff shuffled False (w\<lparr>draws := d\<rparr>))"

text \<open>The task that \<^verbatim>\<open>probeAll\<close> builds for one provider.\<close>

definition providerTask :: "runtime \<Rightarrow> int \<Rightarrow> provider \<Rightarrow> world \<Rightarrow> world" where
  "providerTask rt cutoff provider w =
     (if length (remotes provider) = 1 then
        (let remote = remotes provider ! 0;
             (result, w1) = probeRemote rt provider remote w
         in recordResult (registryName provider) (url remote) result cutoff w1)
      else probeMultiRemote rt provider cutoff w)"

text \<open>
  \<^verbatim>\<open>parallelLimit\<close> as one worker runs it: the tasks one after the other, each to its end.
  With more workers the tasks of different providers interleave where they await a probe;
  that is not modelled.
\<close>

fun parallelLimit :: "(world \<Rightarrow> world) list \<Rightarrow> world \<Rightarrow> world" where
  "parallelLimit [] w = w"
| "parallelLimit (task # tasks) w = parallelLimit tasks (task w)"

text \<open>\<^verbatim>\<open>probeAll\<close>, without its log output; the two check times are kept as instants.\<close>

definition probeAll :: "runtime \<Rightarrow> provider list \<Rightarrow> world \<Rightarrow> world" where
  "probeAll rt providers w =
     (if probeInProgress w then w\<lparr>skipCount := skipCount w + 1\<rparr>
      else
        (let w0 = w\<lparr>probeInProgress := True, skipCount := 0, probeStartedAt := Some (now w)\<rparr>;
             cutoff = now w0 - HISTORY_MAX_AGE_MS;
             providerTasks = map (providerTask rt cutoff) providers;
             w1 = parallelLimit providerTasks w0
         in w1\<lparr>lastCheckTime := Some (now w1),
               nextCheckTime := Some (now w1 + PROBE_INTERVAL_MS rt),
               probeInProgress := False, probeStartedAt := None\<rparr>))"

text \<open>
  The most recent result of a series, as \<^verbatim>\<open>buildRemoteDetail\<close> reads it
  (\<^verbatim>\<open>checks.length > 0 ? checks[checks.length - 1] : null\<close>).
\<close>

definition latestCheck :: "world \<Rightarrow> string \<Rightarrow> CheckResult option" where
  "latestCheck w key =
     (case history w key of
        None \<Rightarrow> None
      | Some checks \<Rightarrow> (if length checks > 0 then Some (checks ! (length checks - 1)) else None))"

text \<open>\<^verbatim>\<open>computeHealthIcons\<close>\<close>

fun statusToColor :: "health \<Rightarrow> color" where
  "statusToColor Healthy = Green"
| "statusToColor Degraded = Yellow"
| "statusToColor Unhealthy = Orange"
| "statusToColor Down = Red"
| "statusToColor Unknown = Gray"

fun colorPriority :: "color \<Rightarrow> nat" where
  "colorPriority Red = 0"
| "colorPriority Orange = 1"
| "colorPriority Yellow = 2"
| "colorPriority Gray = 3"
| "colorPriority Green = 4"

text \<open>\<^verbatim>\<open>[...new Set(xs)]\<close>: the distinct elements, each at its first occurrence.\<close>

definition newSet :: "'a list \<Rightarrow> 'a list" where
  "newSet xs = foldl (\<lambda>acc x. if x \<in> set acc then acc else acc @ [x]) [] xs"

text \<open>
  \<^verbatim>\<open>Array.prototype.sort\<close> with the comparator \<^verbatim>\<open>colorPriority[a] - colorPriority[b]\<close> is a stable
  sort by that key, here \<^const>\<open>sort_key\<close>.
\<close>

definition computeHealthIcons :: "health list \<Rightarrow> color list" where
  "computeHealthIcons remoteStatuses =
     (let maxIcons = min 3 (length remoteStatuses)
      in if maxIcons = 0 then []
         else
           (let colorsPresent = sort_key colorPriority (newSet (map statusToColor remoteStatuses));
                icons = take (min (length colorsPresent) maxIcons) colorsPresent;
                icons = icons @ replicate (maxIcons - length icons) (colorsPresent ! 0)
            in sort_key colorPriority icons))"

text \<open>\<^verbatim>\<open>downsampleToHours\<close>; the first argument is the value of \<^verbatim>\<open>Date.now()\<close>.\<close>

definition downsampleToHours :: "int \<Rightarrow> CheckResult list \<Rightarrow> health list" where
  "downsampleToHours now' checks =
     map (\<lambda>i. let hourStart = now' - (int i + 1) * 3600000;
                  hourEnd = now' - int i * 3600000;
                  inHour = filter (\<lambda>c. timestamp c \<ge> hourStart \<and> timestamp c < hourEnd) checks
              in if length inHour = 0 then Unknown else worstStatus (map status inHour))
       (rev [0 ..< 24])"

text \<open>\<^verbatim>\<open>buildRemoteDetail\<close>; uptime is a double (or null).\<close>

record remoteDetail =
  d_remoteName :: string
  d_url :: string
  d_transport :: string
  d_status :: health
  d_auth :: authStatus
  d_latencyMs :: "int option"
  d_toolCount :: "nat option"
  d_uptimePercent :: "rat option"
  d_history :: "health list"

definition buildRemoteDetail :: "provider \<Rightarrow> remote \<Rightarrow> world \<Rightarrow> remoteDetail" where
  "buildRemoteDetail provider remote w =
     (let key = historyKey (registryName provider) (url remote);
          checks = (case history w key of Some cs \<Rightarrow> cs | None \<Rightarrow> []);
          latest = (if length checks > 0 then Some (checks ! (length checks - 1)) else None);
          totalChecks = length checks;
          nonDownChecks = length (filter (\<lambda>c. status c \<noteq> Down) checks);
          uptimePercent =
            (if totalChecks > 0
             then Some (toDouble (of_int (jsMathRound
                    (toDouble (toDouble (of_nat nonDownChecks / of_nat totalChecks) * 10000)))
                    / 100))
             else None)
      in \<lparr>d_remoteName = remoteName remote,
          d_url = url remote,
          d_transport = transport remote,
          d_status = (case latest of Some l \<Rightarrow> status l | None \<Rightarrow> Unknown),
          d_auth = (case latest of Some l \<Rightarrow> auth l
                    | None \<Rightarrow> (if expectAuth remote then Protected else AuthUnknown)),
          d_latencyMs = (case latest of Some l \<Rightarrow> latencyMs l | None \<Rightarrow> None),
          d_toolCount = (case latest of Some l \<Rightarrow> toolCount l | None \<Rightarrow> None),
          d_uptimePercent = uptimePercent,
          d_history = downsampleToHours (now w) checks\<rparr>)"

section \<open>Example inputs\<close>

definition openServer :: serverConfig where
  "openServer = \<lparr>url = ''https://open.example/mcp'', transport = ''streamable-http'',
     expectAuth = False\<rparr>"

definition authServer :: serverConfig where
  "authServer = \<lparr>url = ''https://auth.example/sse'', transport = ''sse'', expectAuth = True\<rparr>"

definition healthyEnv :: "int \<Rightarrow> nat \<Rightarrow> probeEnv" where
  "healthyEnv latency tools = \<lparr>urlValid = True, connect = None, ping = None,
     pingElapsed = latency, listTools = Inr (Some tools), timedOut = False,
     tookMs = nat latency + 80\<rparr>"

definition pingFailsEnv :: probeEnv where
  "pingFailsEnv = \<lparr>urlValid = True, connect = None,
     ping = Some \<lparr>message = ''MCP error -32601: Method not found'', name = ''McpError'',
                  ctorName = ''McpError'', code = Some (- 32601), causeCode = None\<rparr>,
     pingElapsed = 35, listTools = Inr (Some 3), timedOut = False, tookMs = 120\<rparr>"

definition http401Env :: probeEnv where
  "http401Env = \<lparr>urlValid = True,
     connect = Some \<lparr>message = ''Error POSTing to endpoint (HTTP 401): unauthorized'',
                     name = ''Error'', ctorName = ''StreamableHTTPError'', code = Some 401,
                     causeCode = None\<rparr>,
     ping = None, pingElapsed = 0, listTools = Inr None, timedOut = False, tookMs = 90\<rparr>"

definition refusedEnv :: probeEnv where
  "refusedEnv = \<lparr>urlValid = True,
     connect = Some \<lparr>message = ''fetch failed'', name = ''TypeError'', ctorName = ''TypeError'',
                     code = None, causeCode = Some ''ECONNREFUSED''\<rparr>,
     ping = None, pingElapsed = 0, listTools = Inr None, timedOut = False, tookMs = 15\<rparr>"

definition hangingEnv :: probeEnv where
  "hangingEnv = \<lparr>urlValid = True, connect = None, ping = None, pingElapsed = 0,
     listTools = Inr None, timedOut = True, tookMs = 10000\<rparr>"

definition badUrlEnv :: probeEnv where
  "badUrlEnv = \<lparr>urlValid = False, connect = None, ping = None, pingElapsed = 0,
     listTools = Inr None, timedOut = False, tookMs = 0\<rparr>"

definition remoteA :: remote where
  "remoteA = \<lparr>url = ''https://a.example/mcp'', transport = ''streamable-http'',
     expectAuth = False, remoteName = ''a''\<rparr>"

definition remoteB :: remote where
  "remoteB = \<lparr>url = ''https://b.example/mcp'', transport = ''streamable-http'',
     expectAuth = False, remoteName = ''b''\<rparr>"

definition remoteC :: remote where
  "remoteC = \<lparr>url = ''https://c.example/sse'', transport = ''sse'',
     expectAuth = True, remoteName = ''c''\<rparr>"

definition trioProvider :: provider where
  "trioProvider = \<lparr>registryName = ''com.example/trio'', registryVersion = ''1.0.0'',
     displayName = ''Trio'', sseOnly = False, remotes = [remoteC, remoteA, remoteB]\<rparr>"

definition soloProvider :: provider where
  "soloProvider = \<lparr>registryName = ''com.example/solo'', registryVersion = ''1.0.0'',
     displayName = ''Solo'', sseOnly = False, remotes = [remoteA]\<rparr>"

text \<open>The state of a process that has just started, at time \<open>t\<close>.\<close>

definition startWorld :: "provider list \<Rightarrow> int \<Rightarrow> world" where
  "startWorld providers t = \<lparr>history = initHistory providers, lastCheckTime = None,
     nextCheckTime = None, probeInProgress = False, probeStartedAt = None, skipCount = 0,
     now = t, probed = [], draws = 0\<rparr>"

definition downCheck :: "int \<Rightarrow> CheckResult" where
  "downCheck t = \<lparr>status = Down, auth = AuthUnknown, latencyMs = None, toolCount = None,
     error = Some ''fetch failed'', timestamp = t\<rparr>"

definition okCheck :: "int \<Rightarrow> CheckResult" where
  "okCheck t = \<lparr>status = Healthy, auth = Open, latencyMs = Some 120, toolCount = Some 3,
     error = None, timestamp = t\<rparr>"

text \<open>
  A series of 800 results, one per minute: the first 661 down, the last 139 healthy.
\<close>

definition series800 :: "CheckResult list" where
  "series800 = map (\<lambda>i. downCheck (1700000000000 + 60000 * int i)) [0 ..< 661]
             @ map (\<lambda>i. okCheck (1700000000000 + 60000 * int i)) [661 ..< 800]"

definition world800 :: world where
  "world800 = (startWorld [soloProvider] 1700048000000)
     \<lparr>history := (initHistory [soloProvider])
        (historyKey ''com.example/solo'' ''https://a.example/mcp'' \<mapsto> series800)\<rparr>"

text \<open>
  A process whose only series holds two results, taken at 1699990000000 and at 1700000000000.
  The next cycle starts 10 ms before the second result is 24 hours old, and its probe takes
  200 ms.
\<close>

definition agingWorld :: world where
  "agingWorld = (startWorld [soloProvider] 1700086399990)
     \<lparr>history := (initHistory [soloProvider])
        (historyKey ''com.example/solo'' ''https://a.example/mcp''
           \<mapsto> [okCheck 1699990000000, okCheck 1700000000000])\<rparr>"

text \<open>A history file with one series of two results.\<close>

definition persistedFile :: "(string \<times> CheckResult list) list" where
  "persistedFile = [(historyKey ''com.example/solo'' ''https://a.example/mcp'',
                     [okCheck 1699990000000, okCheck 1700050000000])]"

definition steadyRuntime :: runtime where
  "steadyRuntime = \<lparr>PROBE_TIMEOUT_MS = 10000, PROBE_INTERVAL_MS = 300000,
     net = (\<lambda>n. healthyEnv 120 3), random = (\<lambda>d. 0)\<rparr>"

text \<open>
  The network of the short-circuit example: the first probe of a cycle finds a healthy
  server, the second one is refused, every later one would find a healthy server again.
\<close>

definition secondDownRuntime :: runtime where
  "secondDownRuntime = \<lparr>PROBE_TIMEOUT_MS = 10000, PROBE_INTERVAL_MS = 300000,
     net = (\<lambda>n. if n = 1 then refusedEnv else healthyEnv 120 3), random = (\<lambda>d. 0)\<rparr>"

section \<open>Worst-of reduction\<close>

lemma STATUS_PRIORITY_inj: "STATUS_PRIORITY a = STATUS_PRIORITY b \<Longrightarrow> a = b"
  by (cases a; cases b) simp_all

lemma STATUS_PRIORITY_le_4: "STATUS_PRIORITY s \<le> 4"
  by (cases s) simp_all

lemma worstStatus_loop_mem: "worstStatus_loop w xs \<in> insert w (set xs)"
  by (induction xs arbitrary: w) (simp, force)

lemma worstStatus_loop_le_acc: "STATUS_PRIORITY (worstStatus_loop w xs) \<le> STATUS_PRIORITY w"
proof (induction xs arbitrary: w)
  case Nil
  show ?case by simp
next
  case (Cons x xs)
  let ?w' = "if STATUS_PRIORITY x < STATUS_PRIORITY w then x else w"
  have "STATUS_PRIORITY (worstStatus_loop ?w' xs) \<le> STATUS_PRIORITY ?w'"
    by (rule Cons.IH)
  also have "\<dots> \<le> STATUS_PRIORITY w" by simp
  finally show ?case by simp
qed

lemma worstStatus_loop_le_elem:
  "s \<in> set xs \<Longrightarrow> STATUS_PRIORITY (worstStatus_loop w xs) \<le> STATUS_PRIORITY s"
proof (induction xs arbitrary: w)
  case Nil
  then show ?case by simp
next
  case (Cons x xs)
  let ?w' = "if STATUS_PRIORITY x < STATUS_PRIORITY w then x else w"
  show ?case
  proof (cases "s = x")
    case True
    have "STATUS_PRIORITY (worstStatus_loop ?w' xs) \<le> STATUS_PRIORITY ?w'"
      by (rule worstStatus_loop_le_acc)
    also have "\<dots> \<le> STATUS_PRIORITY x" by simp
    finally show ?thesis using True by simp
  next
    case False
    with Cons.prems have "s \<in> set xs" by simp
    from Cons.IH [OF this, of ?w'] show ?thesis by simp
  qed
qed

lemma worstStatus_mem: "xs \<noteq> [] \<Longrightarrow> worstStatus xs \<in> set xs"
proof -
  assume ne: "xs \<noteq> []"
  have mem: "worstStatus xs \<in> insert Unknown (set xs)"
    unfolding worstStatus_def by (rule worstStatus_loop_mem)
  show ?thesis
  proof (cases "worstStatus xs \<in> set xs")
    case True
    then show ?thesis .
  next
    case False
    with mem have u: "worstStatus xs = Unknown" by simp
    from ne obtain s where s: "s \<in> set xs" by (cases xs) auto
    have "STATUS_PRIORITY (worstStatus xs) \<le> STATUS_PRIORITY s"
      unfolding worstStatus_def using s by (rule worstStatus_loop_le_elem)
    with u have "4 \<le> STATUS_PRIORITY s" by simp
    with STATUS_PRIORITY_le_4 [of s] have "STATUS_PRIORITY s = STATUS_PRIORITY Unknown" by simp
    then have "s = Unknown" by (rule STATUS_PRIORITY_inj)
    with s u show ?thesis by simp
  qed
qed

lemma worstStatus_le_elem: "s \<in> set xs \<Longrightarrow> STATUS_PRIORITY (worstStatus xs) \<le> STATUS_PRIORITY s"
  unfolding worstStatus_def by (rule worstStatus_loop_le_elem)

lemma worstStatus_set_cong:
  assumes "set xs = set ys"
  shows "worstStatus xs = worstStatus ys"
proof (cases "xs = []")
  case True
  with assms show ?thesis by simp
next
  case False
  with assms have ne: "xs \<noteq> []" "ys \<noteq> []" by auto
  have "worstStatus xs \<in> set ys" using worstStatus_mem [OF ne(1)] assms by simp
  then have a: "STATUS_PRIORITY (worstStatus ys) \<le> STATUS_PRIORITY (worstStatus xs)"
    by (rule worstStatus_le_elem)
  have "worstStatus ys \<in> set xs" using worstStatus_mem [OF ne(2)] assms by simp
  then have b: "STATUS_PRIORITY (worstStatus xs) \<le> STATUS_PRIORITY (worstStatus ys)"
    by (rule worstStatus_le_elem)
  from a b show ?thesis by (intro STATUS_PRIORITY_inj) simp
qed

text \<open>
  Claim C1. The worst-of reduction \<^verbatim>\<open>worstStatus\<close> works on the total order
  down < unhealthy < degraded < healthy < unknown: its result is no later in that order than
  any status of the list, and it is one of the statuses of a non-empty list. It does not depend
  on the order of the list (any two lists with the same statuses, counted with multiplicity,
  give the same result, in particular \<^verbatim>\<open>[a,b,c]\<close> and \<^verbatim>\<open>[c,b,a]\<close>), the worst of a one-element
  list is its element, and the worst of the empty list is unknown.
\<close>

theorem worstStatus_total_order_independent:
  "STATUS_PRIORITY Down < STATUS_PRIORITY Unhealthy
   \<and> STATUS_PRIORITY Unhealthy < STATUS_PRIORITY Degraded
   \<and> STATUS_PRIORITY Degraded < STATUS_PRIORITY Healthy
   \<and> STATUS_PRIORITY Healthy < STATUS_PRIORITY Unknown
   \<and> (\<forall>s \<in> set xs. STATUS_PRIORITY (worstStatus xs) \<le> STATUS_PRIORITY s)
   \<and> (xs \<noteq> [] \<longrightarrow> worstStatus xs \<in> set xs)
   \<and> (mset xs = mset ys \<longrightarrow> worstStatus xs = worstStatus ys)
   \<and> worstStatus [a, b, c] = worstStatus [c, b, a]
   \<and> worstStatus [x] = x
   \<and> worstStatus [] = Unknown"
proof -
  have perm: "mset xs = mset ys \<longrightarrow> worstStatus xs = worstStatus ys"
    by (auto dest: mset_eq_setD intro: worstStatus_set_cong)
  have rev3: "worstStatus [a, b, c] = worstStatus [c, b, a]"
    by (rule worstStatus_set_cong) auto
  have single: "worstStatus [x] = x"
    using worstStatus_mem [of "[x]"] by simp
  have empty: "worstStatus [] = Unknown"
    by (simp add: worstStatus_def)
  show ?thesis
    using perm rev3 single empty worstStatus_le_elem [of _ xs] worstStatus_mem [of xs]
    by simp
qed

theorem worstStatus_total_order_independent_witness:
  "mset [Healthy, Down, Degraded] = mset [Degraded, Healthy, Down]
   \<and> worstStatus [Healthy, Down, Degraded] = Down
   \<and> worstStatus [Degraded, Healthy, Down] = Down
   \<and> worstStatus [Healthy] = Healthy
   \<and> worstStatus [] = Unknown"
  using worstStatus_total_order_independent
    [of "[Healthy, Down, Degraded]" "[Degraded, Healthy, Down]" Healthy Down Degraded Healthy]
  by (simp add: worstStatus_def)

section \<open>The prober's results\<close>

lemma withTimestamp_record:
  "withTimestamp ts \<lparr>status = s, auth = a, latencyMs = l, toolCount = t, error = e\<rparr>
   = \<lparr>status = s, auth = a, latencyMs = l, toolCount = t, error = e, timestamp = ts\<rparr>"
  by (simp add: withTimestamp_def probeOutcome.defs CheckResult.defs)

lemma timestamp_withTimestamp: "timestamp (withTimestamp ts r) = ts"
  by (simp add: withTimestamp_def probeOutcome.defs CheckResult.defs)

lemma probeServer_settled:
  "\<not> timedOut env \<Longrightarrow> doProbe cfg env = Inr r \<Longrightarrow> probeServer ms cfg env ts = withTimestamp ts r"
  by (simp add: probeServer_def raceTimeout_def)

text \<open>
  Claim C3, as the code has it. When the handshake succeeds and the ping fails, \<^verbatim>\<open>doProbe\<close>
  returns health degraded, auth open, no tool count, the error text \<^verbatim>\<open>ping failed: ...\<close> and as
  latency the milliseconds that passed between the start of the ping and its failure (a number,
  not null); \<^verbatim>\<open>probeServer\<close> returns this result with its timestamp when the probe settles before
  the per-probe timeout.
\<close>

theorem ping_failure_degraded_with_latency:
  assumes "urlValid env" and "connect env = None" and "ping env = Some pingErr"
  shows "doProbe cfg env =
           Inr \<lparr>status = Degraded, auth = Open, latencyMs = Some (pingElapsed env),
                toolCount = None, error = Some (''ping failed: '' @ message pingErr)\<rparr>
         \<and> (\<not> timedOut env \<longrightarrow>
              probeServer ms cfg env ts =
                \<lparr>status = Degraded, auth = Open, latencyMs = Some (pingElapsed env),
                 toolCount = None, error = Some (''ping failed: '' @ message pingErr),
                 timestamp = ts\<rparr>)"
proof -
  have d: "doProbe cfg env =
      Inr \<lparr>status = Degraded, auth = Open, latencyMs = Some (pingElapsed env),
           toolCount = None, error = Some (''ping failed: '' @ message pingErr)\<rparr>"
    using assms by (simp add: doProbe_def)
  show ?thesis
    using d by (simp add: probeServer_settled withTimestamp_record)
qed

theorem ping_failure_degraded_with_latency_witness:
  "urlValid pingFailsEnv \<and> connect pingFailsEnv = None \<and> ping pingFailsEnv \<noteq> None
   \<and> \<not> timedOut pingFailsEnv
   \<and> probeServer 10000 openServer pingFailsEnv 1700000000000 =
       \<lparr>status = Degraded, auth = Open, latencyMs = Some 35, toolCount = None,
        error = Some ''ping failed: MCP error -32601: Method not found'',
        timestamp = 1700000000000\<rparr>"
  using ping_failure_degraded_with_latency
    [of pingFailsEnv "the (ping pingFailsEnv)" openServer 10000 1700000000000]
  by (simp add: pingFailsEnv_def)

theorem ping_failure_latency_absent_counterexample:
  "urlValid pingFailsEnv \<and> connect pingFailsEnv = None \<and> ping pingFailsEnv \<noteq> None
   \<and> status (probeServer 10000 openServer pingFailsEnv 1700000000000) = Degraded
   \<and> latencyMs (probeServer 10000 openServer pingFailsEnv 1700000000000) = Some 35
   \<and> latencyMs (probeServer 10000 openServer pingFailsEnv 1700000000000) \<noteq> None"
  by (simp add: pingFailsEnv_def probeServer_def raceTimeout_def doProbe_def withTimestamp_record)

text \<open>
  Claim C4. When handshake, ping and capability listing all succeed and the ping took \<open>L\<close>
  milliseconds, the result is healthy if \<open>L \<le> 500\<close> and degraded for every \<open>L > 500\<close> (also
  above 2000: latency alone never gives another status), auth is open, the latency is \<open>L\<close> and
  the tool count is the number of items of the returned list (0 when the result has no list).
  \<^verbatim>\<open>probeServer\<close> returns this result with its timestamp when the probe settles before the
  per-probe timeout.
\<close>

theorem full_success_latency_threshold:
  assumes "urlValid env" and "connect env = None" and "ping env = None"
    and "listTools env = Inr tools"
  shows "doProbe cfg env =
           Inr \<lparr>status = (if pingElapsed env \<le> 500 then Healthy else Degraded), auth = Open,
                latencyMs = Some (pingElapsed env),
                toolCount = Some (case tools of Some n \<Rightarrow> n | None \<Rightarrow> 0), error = None\<rparr>
         \<and> (\<not> timedOut env \<longrightarrow>
              probeServer ms cfg env ts =
                \<lparr>status = (if pingElapsed env \<le> 500 then Healthy else Degraded), auth = Open,
                 latencyMs = Some (pingElapsed env),
                 toolCount = Some (case tools of Some n \<Rightarrow> n | None \<Rightarrow> 0), error = None,
                 timestamp = ts\<rparr>)"
proof -
  have d: "doProbe cfg env =
      Inr \<lparr>status = (if pingElapsed env \<le> 500 then Healthy else Degraded), auth = Open,
           latencyMs = Some (pingElapsed env),
           toolCount = Some (case tools of Some n \<Rightarrow> n | None \<Rightarrow> 0), error = None\<rparr>"
    using assms by (simp add: doProbe_def Let_def)
  show ?thesis
    using d by (simp add: probeServer_settled withTimestamp_record)
qed

theorem full_success_latency_threshold_witness:
  "probeServer 10000 openServer (healthyEnv 120 3) 1700000000000 =
     \<lparr>status = Healthy, auth = Open, latencyMs = Some 120, toolCount = Some 3, error = None,
      timestamp = 1700000000000\<rparr>
   \<and> probeServer 10000 openServer (healthyEnv 900 0) 1700000000000 =
     \<lparr>status = Degraded, auth = Open, latencyMs = Some 900, toolCount = Some 0, error = None,
      timestamp = 1700000000000\<rparr>
   \<and> probeServer 10000 openServer (healthyEnv 2500 7) 1700000000000 =
     \<lparr>status = Degraded, auth = Open, latencyMs = Some 2500, toolCount = Some 7, error = None,
      timestamp = 1700000000000\<rparr>"
  using
    full_success_latency_threshold
      [of "healthyEnv 120 3" "Some 3" openServer 10000 1700000000000]
    full_success_latency_threshold
      [of "healthyEnv 900 0" "Some 0" openServer 10000 1700000000000]
    full_success_latency_threshold
      [of "healthyEnv 2500 7" "Some 7" openServer 10000 1700000000000]
  by (simp add: healthyEnv_def)

text \<open>
  Claim C5. When the handshake is answered by an authorization denial (an error with code 401
  or 403, an \<^verbatim>\<open>UnauthorizedError\<close>, or an error whose text has 401, 403, Unauthorized or
  Forbidden in it), the result is health healthy, auth protected, no latency, no tool count (and
  no error text), whatever the auth hint of the endpoint; \<^verbatim>\<open>probeServer\<close> returns it with its
  timestamp when the probe settles before the per-probe timeout.
\<close>

theorem auth_denied_healthy_protected:
  assumes "code err = Some 401 \<or> code err = Some 403 \<or> ctorName err = ''UnauthorizedError'' \<or>
           str_includes (errText err) ''401'' \<or> str_includes (errText err) ''Unauthorized'' \<or>
           str_includes (errText err) ''403'' \<or> str_includes (errText err) ''Forbidden''"
  shows "classifyConnectError err cfg =
           \<lparr>status = Healthy, auth = Protected, latencyMs = None, toolCount = None, error = None\<rparr>
         \<and> (urlValid env \<and> connect env = Some err \<longrightarrow>
              doProbe cfg env =
                Inr \<lparr>status = Healthy, auth = Protected, latencyMs = None, toolCount = None,
                     error = None\<rparr>)
         \<and> (urlValid env \<and> connect env = Some err \<and> \<not> timedOut env \<longrightarrow>
              probeServer ms cfg env ts =
                \<lparr>status = Healthy, auth = Protected, latencyMs = None, toolCount = None,
                 error = None, timestamp = ts\<rparr>)"
proof -
  have c: "classifyConnectError err cfg =
      \<lparr>status = Healthy, auth = Protected, latencyMs = None, toolCount = None, error = None\<rparr>"
    using assms unfolding classifyConnectError_def Let_def by (simp only: if_True)
  have d: "doProbe cfg env =
      Inr \<lparr>status = Healthy, auth = Protected, latencyMs = None, toolCount = None, error = None\<rparr>"
    if "urlValid env" "connect env = Some err"
    using that c by (simp add: doProbe_def)
  show ?thesis
    using c d by (simp add: probeServer_settled withTimestamp_record)
qed

theorem auth_denied_healthy_protected_witness:
  "code (the (connect http401Env)) = Some 401
   \<and> probeServer 10000 openServer http401Env 1700000000000 =
       \<lparr>status = Healthy, auth = Protected, latencyMs = None, toolCount = None, error = None,
        timestamp = 1700000000000\<rparr>
   \<and> probeServer 10000 authServer http401Env 1700000000000 =
       \<lparr>status = Healthy, auth = Protected, latencyMs = None, toolCount = None, error = None,
        timestamp = 1700000000000\<rparr>"
  using
    auth_denied_healthy_protected
      [of "the (connect http401Env)" openServer http401Env 10000 1700000000000]
    auth_denied_healthy_protected
      [of "the (connect http401Env)" authServer http401Env 10000 1700000000000]
  by (simp add: http401Env_def)

text \<open>
  Claim C10. Every call of \<^verbatim>\<open>probeServer\<close> returns a CheckResult whose timestamp is the time of
  the call. When the timer fires before the probe settles, or an exception leaves \<^verbatim>\<open>doProbe\<close>
  (which an invalid URL causes), the result is health down, auth protected if the auth hint of
  the endpoint is set and unknown otherwise, no latency, no tool count and a non-empty error
  text: the text of the timeout, or that of the exception.
\<close>

theorem probeServer_timeout_or_exception_down:
  "timestamp (probeServer ms cfg env ts) = ts
   \<and> (\<not> urlValid env \<longrightarrow> doProbe cfg env = Inl invalidUrlError)
   \<and> (timedOut env \<or> isl (doProbe cfg env) \<longrightarrow>
        (\<exists>msg. msg \<noteq> []
           \<and> msg = (if timedOut env then ''Probe timed out after '' @ showInt ms @ ''ms''
                    else ''Invalid URL'')
           \<and> probeServer ms cfg env ts =
               \<lparr>status = Down,
                auth = (if expectAuth cfg then Protected else AuthUnknown),
                latencyMs = None, toolCount = None, error = Some msg, timestamp = ts\<rparr>))"
proof -
  have ts: "timestamp (probeServer ms cfg env ts) = ts"
    by (simp add: probeServer_def timestamp_withTimestamp split: sum.split)
  have inl: "doProbe cfg env = Inl invalidUrlError" if "isl (doProbe cfg env)"
    using that
    by (auto simp add: doProbe_def Let_def split: if_splits option.splits sum.splits)
  have bad: "doProbe cfg env = Inl invalidUrlError" if "\<not> urlValid env"
    using that by (simp add: doProbe_def)
  have "probeServer ms cfg env ts =
          \<lparr>status = Down, auth = (if expectAuth cfg then Protected else AuthUnknown),
           latencyMs = None, toolCount = None,
           error = Some (''Probe timed out after '' @ showInt ms @ ''ms''), timestamp = ts\<rparr>"
    if "timedOut env"
    using that by (simp add: probeServer_def raceTimeout_def timeoutError_def errText_def)
  moreover have "probeServer ms cfg env ts =
          \<lparr>status = Down, auth = (if expectAuth cfg then Protected else AuthUnknown),
           latencyMs = None, toolCount = None, error = Some ''Invalid URL'', timestamp = ts\<rparr>"
    if "\<not> timedOut env" "isl (doProbe cfg env)"
    using that inl
    by (simp add: probeServer_def raceTimeout_def invalidUrlError_def errText_def)
  ultimately show ?thesis
    using ts bad by auto
qed

theorem probeServer_timeout_or_exception_down_witness:
  "timedOut hangingEnv
   \<and> probeServer 10000 authServer hangingEnv 1700000000000 =
       \<lparr>status = Down, auth = Protected, latencyMs = None, toolCount = None,
        error = Some ''Probe timed out after 10000ms'', timestamp = 1700000000000\<rparr>
   \<and> isl (doProbe openServer badUrlEnv)
   \<and> probeServer 10000 openServer badUrlEnv 1700000000000 =
       \<lparr>status = Down, auth = AuthUnknown, latencyMs = None, toolCount = None,
        error = Some ''Invalid URL'', timestamp = 1700000000000\<rparr>"
  using
    probeServer_timeout_or_exception_down [of 10000 authServer hangingEnv 1700000000000]
    probeServer_timeout_or_exception_down [of 10000 openServer badUrlEnv 1700000000000]
  by (simp add: hangingEnv_def badUrlEnv_def authServer_def openServer_def doProbe_def
      showInt_def showNat.simps)

section \<open>Health icons\<close>

lemma colorPriority_inj: "colorPriority a = colorPriority b \<Longrightarrow> a = b"
  by (cases a; cases b) simp_all

lemma newSet_foldl_set:
  "set (foldl (\<lambda>acc x. if x \<in> set acc then acc else acc @ [x]) acc xs) = set acc \<union> set xs"
  by (induction xs arbitrary: acc) auto

lemma newSet_foldl_distinct:
  "distinct acc \<Longrightarrow> distinct (foldl (\<lambda>acc x. if x \<in> set acc then acc else acc @ [x]) acc xs)"
  by (induction xs arbitrary: acc) auto

lemma set_newSet: "set (newSet xs) = set xs"
  by (simp add: newSet_def newSet_foldl_set)

lemma distinct_newSet: "distinct (newSet xs)"
  by (simp add: newSet_def newSet_foldl_distinct)

lemma filter_eq_of_mset_eq:
  assumes "mset ys = mset xs"
  shows "filter (\<lambda>x. k = x) ys = filter (\<lambda>x. k = x) xs"
proof -
  have "length (filter (\<lambda>x. k = x) ys) = size (filter_mset (\<lambda>x. k = x) (mset ys))"
    by (simp flip: mset_filter)
  also have "\<dots> = size (filter_mset (\<lambda>x. k = x) (mset xs))"
    using assms by simp
  also have "\<dots> = length (filter (\<lambda>x. k = x) xs)"
    by (simp flip: mset_filter)
  finally have len: "length (filter (\<lambda>x. k = x) ys) = length (filter (\<lambda>x. k = x) xs)" .
  have "filter (\<lambda>x. k = x) ys = replicate (length (filter (\<lambda>x. k = x) ys)) k"
    by (simp add: replicate_length_filter)
  also have "\<dots> = replicate (length (filter (\<lambda>x. k = x) xs)) k"
    using len by simp
  also have "\<dots> = filter (\<lambda>x. k = x) xs"
    by (simp add: replicate_length_filter)
  finally show ?thesis .
qed

lemma sort_key_colorPriority_unique:
  assumes "mset ys = mset xs" and "sorted (map colorPriority ys)"
  shows "sort_key colorPriority xs = ys"
proof (rule properties_for_sort_key [OF assms(1) _ assms(2)])
  fix k
  have eq: "(\<lambda>x. colorPriority k = colorPriority x) = (\<lambda>x. k = x)"
    by (auto dest: colorPriority_inj)
  show "filter (\<lambda>x. colorPriority k = colorPriority x) ys
        = filter (\<lambda>x. colorPriority k = colorPriority x) xs"
    unfolding eq using assms(1) by (rule filter_eq_of_mset_eq)
qed

lemma sorted_pad_worst:
  assumes "sorted (map colorPriority cs)"
  shows "sorted (map colorPriority (replicate m (hd cs) @ take k cs))"
proof (cases cs)
  case Nil
  then show ?thesis by simp
next
  case (Cons c rest)
  have le: "colorPriority c \<le> y" if "y \<in> set (map colorPriority (take k cs))" for y
  proof -
    from that have "y \<in> set (map colorPriority cs)"
      by (auto dest: in_set_takeD)
    then show ?thesis using assms Cons by auto
  qed
  have "sorted (map colorPriority (take k cs))"
    using assms by (simp add: take_map [symmetric] sorted_wrt_take)
  then show ?thesis
    using le Cons by (auto simp add: sorted_append)
qed

lemma computeHealthIcons_nonempty:
  assumes "xs \<noteq> []"
  defines "cs \<equiv> sort_key colorPriority (newSet (map statusToColor xs))"
  defines "k \<equiv> min 3 (length xs)"
  shows "computeHealthIcons xs = replicate (k - length cs) (hd cs) @ take k cs"
proof -
  have "set cs = statusToColor ` set xs"
    by (simp add: cs_def set_newSet)
  with assms(1) have ne: "cs \<noteq> []" by auto
  have k0: "k \<noteq> 0" using assms(1) by (simp add: k_def)
  have tk: "take (min (length cs) k) cs = take k cs"
    by (simp add: min_def)
  have pad: "k - length (take k cs) = k - length cs"
    by (simp add: min_def)
  have nth0: "cs ! 0 = hd cs" using ne by (simp add: hd_conv_nth)
  have "computeHealthIcons xs
        = sort_key colorPriority (take k cs @ replicate (k - length cs) (hd cs))"
    using k0 unfolding computeHealthIcons_def Let_def cs_def [symmetric] k_def [symmetric]
    by (simp only: if_False tk pad nth0)
  also have "\<dots> = replicate (k - length cs) (hd cs) @ take k cs"
  proof (rule sort_key_colorPriority_unique)
    show "mset (replicate (k - length cs) (hd cs) @ take k cs)
          = mset (take k cs @ replicate (k - length cs) (hd cs))"
      by simp
    have "sorted (map colorPriority cs)" by (simp add: cs_def)
    then show "sorted (map colorPriority (replicate (k - length cs) (hd cs) @ take k cs))"
      by (rule sorted_pad_worst)
  qed
  finally show ?thesis .
qed

lemma distinct_singleton_set:
  assumes "distinct cs" and "set cs = {c}"
  shows "cs = [c]"
proof (cases cs)
  case Nil
  with assms(2) show ?thesis by simp
next
  case (Cons x rest)
  with assms(2) have x: "x = c" by auto
  have "rest = []"
  proof (rule ccontr)
    assume "rest \<noteq> []"
    then obtain y where y: "y \<in> set rest" by (cases rest) auto
    with assms(2) Cons have "y = c" by auto
    with y x assms(1) Cons show False by simp
  qed
  with x Cons show ?thesis by simp
qed

text \<open>
  Claim C8. The health-icon summary has \<open>min 3 n\<close> entries for \<open>n\<close> endpoints, so never more
  than 3, and none for no endpoint. It is sorted worst first by the fixed priority
  red < orange < yellow < gray < green. With \<open>cs\<close> the distinct colors of the statuses, worst
  first, it consists of the first \<open>min 3 n\<close> colors of \<open>cs\<close>, one icon each, preceded by as many
  copies of the worst color present as there are slots left. \<open>N\<close> endpoints of one status give
  \<open>min N 3\<close> copies of the color of that status.
\<close>

theorem computeHealthIcons_worst_first_padded:
  "length (computeHealthIcons xs) = min 3 (length xs)
   \<and> length (computeHealthIcons xs) \<le> 3
   \<and> colorPriority Red < colorPriority Orange \<and> colorPriority Orange < colorPriority Yellow
   \<and> colorPriority Yellow < colorPriority Gray \<and> colorPriority Gray < colorPriority Green
   \<and> sorted (map colorPriority (computeHealthIcons xs))
   \<and> (\<exists>cs. distinct cs \<and> set cs = statusToColor ` set xs \<and> sorted (map colorPriority cs)
        \<and> computeHealthIcons xs
            = replicate (min 3 (length xs) - length cs) (hd cs) @ take (min 3 (length xs)) cs)
   \<and> computeHealthIcons [] = []
   \<and> computeHealthIcons (replicate N s) = replicate (min N 3) (statusToColor s)"
proof -
  define cs where "cs = sort_key colorPriority (newSet (map statusToColor xs))"
  define k where "k = min 3 (length xs)"
  have empty: "computeHealthIcons [] = []"
    by (simp add: computeHealthIcons_def)
  have dist: "distinct cs" by (simp add: cs_def distinct_newSet)
  have setcs: "set cs = statusToColor ` set xs" by (simp add: cs_def set_newSet)
  have sortcs: "sorted (map colorPriority cs)" by (simp add: cs_def)
  have form: "computeHealthIcons xs = replicate (k - length cs) (hd cs) @ take k cs"
  proof (cases "xs = []")
    case True
    then show ?thesis by (simp add: empty cs_def k_def newSet_def)
  next
    case False
    then show ?thesis unfolding cs_def k_def by (rule computeHealthIcons_nonempty)
  qed
  have len: "length (computeHealthIcons xs) = k"
    unfolding form by (simp add: min_def)
  have srt: "sorted (map colorPriority (computeHealthIcons xs))"
    unfolding form using sortcs by (rule sorted_pad_worst)
  have single: "computeHealthIcons (replicate N s) = replicate (min N 3) (statusToColor s)"
  proof (cases "N = 0")
    case True
    then show ?thesis by (simp add: empty)
  next
    case False
    define ds where "ds = sort_key colorPriority (newSet (map statusToColor (replicate N s)))"
    have "distinct ds" by (simp add: ds_def distinct_newSet)
    moreover have "set ds = {statusToColor s}"
      using False by (simp add: ds_def set_newSet)
    ultimately have ds: "ds = [statusToColor s]" by (rule distinct_singleton_set)
    have "replicate N s \<noteq> []" using False by simp
    then have "computeHealthIcons (replicate N s)
        = replicate (min 3 (length (replicate N s)) - length ds) (hd ds)
          @ take (min 3 (length (replicate N s))) ds"
      unfolding ds_def by (rule computeHealthIcons_nonempty)
    also have "\<dots> = replicate (min 3 N - 1) (statusToColor s) @ [statusToColor s]"
      using False by (simp add: ds min_def)
    also have "\<dots> = replicate (Suc (min 3 N - 1)) (statusToColor s)"
      by (simp only: replicate_append_same replicate_Suc)
    also have "Suc (min 3 N - 1) = min N 3" using False by (simp add: min_def)
    finally show ?thesis .
  qed
  show ?thesis
    using len srt dist setcs sortcs form empty single unfolding k_def
    by (intro conjI exI [of _ cs]) simp_all
qed

theorem computeHealthIcons_worst_first_padded_witness:
  "computeHealthIcons [Healthy, Down, Healthy] = [Red, Red, Green]
   \<and> computeHealthIcons [Healthy, Unknown, Down, Degraded, Unhealthy] = [Red, Orange, Yellow]
   \<and> computeHealthIcons [Degraded, Degraded] = [Yellow, Yellow]
   \<and> computeHealthIcons (replicate 5 Degraded) = [Yellow, Yellow, Yellow]"
  using computeHealthIcons_worst_first_padded [of "[Healthy, Down, Healthy]" 5 Degraded]
  by (simp add: computeHealthIcons_def newSet_def eval_nat_numeral)

section \<open>The per-endpoint view\<close>

lemma downsampleToHours_Nil: "downsampleToHours t [] = replicate 24 Unknown"
  by (simp add: downsampleToHours_def map_replicate_const)

text \<open>
  Claim C9, as the code has it. For an endpoint whose series is empty (or absent), the
  per-endpoint view reports health unknown, no latency, no tool count and no uptime, and as
  auth the static hint of the endpoint: protected if the hint is set, unknown otherwise.
\<close>

theorem buildRemoteDetail_empty_series:
  assumes "history w (historyKey (registryName provider) (url remote)) = Some []
           \<or> history w (historyKey (registryName provider) (url remote)) = None"
  shows "d_status (buildRemoteDetail provider remote w) = Unknown
         \<and> d_auth (buildRemoteDetail provider remote w)
             = (if expectAuth remote then Protected else AuthUnknown)
         \<and> d_latencyMs (buildRemoteDetail provider remote w) = None
         \<and> d_toolCount (buildRemoteDetail provider remote w) = None
         \<and> d_uptimePercent (buildRemoteDetail provider remote w) = None
         \<and> d_history (buildRemoteDetail provider remote w) = replicate 24 Unknown"
  using assms by (auto simp add: buildRemoteDetail_def downsampleToHours_Nil)

lemma trio_keys:
  "history (startWorld [trioProvider] t) (historyKey (registryName trioProvider) (url remoteA)) = Some []"
  "history (startWorld [trioProvider] t) (historyKey (registryName trioProvider) (url remoteB)) = Some []"
  "history (startWorld [trioProvider] t) (historyKey (registryName trioProvider) (url remoteC)) = Some []"
  by (simp_all add: startWorld_def initHistory_def historyKey_def trioProvider_def
      remoteA_def remoteB_def remoteC_def)

theorem buildRemoteDetail_empty_series_witness:
  "history (startWorld [trioProvider] 1700000000000)
     (historyKey (registryName trioProvider) (url remoteA)) = Some []
   \<and> d_status (buildRemoteDetail trioProvider remoteA (startWorld [trioProvider] 1700000000000))
       = Unknown
   \<and> d_auth (buildRemoteDetail trioProvider remoteA (startWorld [trioProvider] 1700000000000))
       = AuthUnknown
   \<and> d_latencyMs (buildRemoteDetail trioProvider remoteA (startWorld [trioProvider] 1700000000000))
       = None
   \<and> d_toolCount (buildRemoteDetail trioProvider remoteA (startWorld [trioProvider] 1700000000000))
       = None"
  using buildRemoteDetail_empty_series
    [of "startWorld [trioProvider] 1700000000000" trioProvider remoteA]
  by (simp add: trio_keys) (simp add: remoteA_def)

theorem buildRemoteDetail_empty_auth_unknown_counterexample:
  "history (startWorld [trioProvider] 1700000000000)
     (historyKey (registryName trioProvider) (url remoteC)) = Some []
   \<and> d_auth (buildRemoteDetail trioProvider remoteC (startWorld [trioProvider] 1700000000000))
       = Protected
   \<and> d_auth (buildRemoteDetail trioProvider remoteC (startWorld [trioProvider] 1700000000000))
       \<noteq> AuthUnknown"
  by (simp add: trio_keys buildRemoteDetail_def) (simp add: remoteC_def)

section \<open>Uptime\<close>

lemma uptime_numerals:
  "toDouble (rat_of_int (jsMathRound (toDouble (toDouble (139 / 800) * 10000))) / 100)
   = toDouble (1737 / 100)"
  "toDouble (1737 / 100) \<noteq> toDouble (1738 / 100)"
  "toDouble (toDouble (139 / 800) * 10000) = 7641605813043199 / 4398046511104"
  "toDouble (100 * 139 / 800) = 17375 / 1000"
  by code_simp+

lemma series800_counts:
  "length series800 = 800"
  "length (filter (\<lambda>c. status c \<noteq> Down) series800) = 139"
  "length (filter (\<lambda>c. status c = Down) series800) = 661"
  by (simp_all add: series800_def downCheck_def okCheck_def filter_map o_def)

lemma series800_nonempty: "series800 \<noteq> []"
  using series800_counts(1) by auto

lemma world800_series:
  "history world800 (historyKey (registryName soloProvider) (url remoteA)) = Some series800"
  by (simp add: world800_def startWorld_def soloProvider_def remoteA_def)

text \<open>
  Claim C7 at a series of 800 entries of which 661 are down. The exact value of
  \<open>100 * (n - d) / n\<close> is 17.375, which rounds to 17.38. The code divides first: the double
  nearest to 139 / 800 is below 0.17375, its product with 10000 is the double
  1737.4999999999998 (7641605813043199 / 2 ^ 42), \<^verbatim>\<open>Math.round\<close> gives 1737 and the reported
  uptime is the double of 17.37.
\<close>

theorem uptime_800_entries_661_down:
  "history world800 (historyKey (registryName soloProvider) (url remoteA)) = Some series800
   \<and> length series800 = 800
   \<and> length (filter (\<lambda>c. status c = Down) series800) = 661
   \<and> d_uptimePercent (buildRemoteDetail soloProvider remoteA world800)
       = Some (toDouble (1737 / 100))
   \<and> d_uptimePercent (buildRemoteDetail soloProvider remoteA world800)
       \<noteq> Some (toDouble (1738 / 100))
   \<and> toDouble (100 * (800 - 661) / 800) = 17375 / 1000"
proof -
  have "d_uptimePercent (buildRemoteDetail soloProvider remoteA world800)
        = Some (toDouble (rat_of_int (jsMathRound
            (toDouble (toDouble (of_nat 139 / of_nat 800) * 10000))) / 100))"
    by (simp add: buildRemoteDetail_def world800_series series800_counts series800_nonempty)
  then have "d_uptimePercent (buildRemoteDetail soloProvider remoteA world800)
        = Some (toDouble (1737 / 100))"
    by (simp add: uptime_numerals(1))
  then show ?thesis
    using uptime_numerals(2,4) world800_series series800_counts by simp
qed

section \<open>The history store\<close>

lemma trimOld_split:
  "\<exists>dropped. checks = dropped @ trimOld cutoff checks \<and> (\<forall>c \<in> set dropped. timestamp c < cutoff)"
proof (induction checks)
  case Nil
  show ?case by simp
next
  case (Cons c checks)
  show ?case
  proof (cases "timestamp c < cutoff")
    case True
    from Cons.IH obtain dropped where
      d: "checks = dropped @ trimOld cutoff checks" "\<forall>c \<in> set dropped. timestamp c < cutoff"
      by blast
    have "c # checks = (c # dropped) @ trimOld cutoff (c # checks)"
      using True d(1) by simp
    moreover have "\<forall>x \<in> set (c # dropped). timestamp x < cutoff"
      using True d(2) by simp
    ultimately show ?thesis by blast
  next
    case False
    then have "c # checks = [] @ trimOld cutoff (c # checks)" by simp
    then show ?thesis by (intro exI [of _ "[]"]) simp
  qed
qed

lemma trimOld_sorted:
  "sorted (map timestamp checks) \<Longrightarrow> sorted (map timestamp (trimOld cutoff checks))"
  by (induction checks) auto

lemma trimOld_fresh:
  "sorted (map timestamp checks) \<Longrightarrow> c \<in> set (trimOld cutoff checks) \<Longrightarrow> cutoff \<le> timestamp c"
  by (induction checks) (auto split: if_splits)

lemma trimOld_keeps_last:
  "cutoff \<le> timestamp result \<Longrightarrow>
   trimOld cutoff (checks @ [result]) \<noteq> [] \<and> last (trimOld cutoff (checks @ [result])) = result"
  by (induction checks) auto

lemma recordResult_history_same:
  "history w (historyKey n u) = Some checks \<Longrightarrow>
   history (recordResult n u result cutoff w) (historyKey n u)
     = Some (trimOld cutoff (checks @ [result]))"
  by (simp add: recordResult_def)

lemma recordResult_history_other:
  "key \<noteq> historyKey n u \<Longrightarrow> history (recordResult n u result cutoff w) key = history w key"
  by (simp add: recordResult_def Let_def split: option.split)

lemma recordResult_history_None:
  "history (recordResult n u result cutoff w) key = None \<longleftrightarrow> history w key = None"
  by (simp add: recordResult_def Let_def split: option.split)

lemma recordResult_fields:
  "now (recordResult n u result cutoff w) = now w"
  "probed (recordResult n u result cutoff w) = probed w"
  "draws (recordResult n u result cutoff w) = draws w"
  by (simp_all add: recordResult_def Let_def split: option.split)

lemma loadEntries_other:
  "key \<notin> fst ` set entries \<Longrightarrow> loadEntries cutoff entries h key = h key"
  by (induction entries arbitrary: h) (auto split: if_splits)

lemma loadEntries_found:
  "distinct (map fst entries) \<Longrightarrow> (key, checks) \<in> set entries \<Longrightarrow> h key \<noteq> None \<Longrightarrow>
   loadEntries cutoff entries h key = Some (filter (\<lambda>c. timestamp c > cutoff) checks)"
proof (induction entries arbitrary: h)
  case Nil
  then show ?case by simp
next
  case (Cons e entries)
  obtain k cs where e: "e = (k, cs)" by (cases e)
  show ?case
  proof (cases "k = key")
    case True
    with Cons.prems e have cs: "cs = checks" and notin: "key \<notin> fst ` set entries"
      by (auto simp add: rev_image_eqI)
    show ?thesis
      using Cons.prems(3) True e cs loadEntries_other [OF notin] by simp
  next
    case False
    with Cons.prems e have mem: "(key, checks) \<in> set entries" and d: "distinct (map fst entries)"
      by auto
    let ?h = "if h k \<noteq> None then h(k \<mapsto> filter (\<lambda>c. timestamp c > cutoff) cs) else h"
    have "?h key \<noteq> None" using Cons.prems(3) False by simp
    then have "loadEntries cutoff entries ?h key = Some (filter (\<lambda>c. timestamp c > cutoff) checks)"
      using d mem by (intro Cons.IH)
    then show ?thesis using e by simp
  qed
qed

text \<open>
  Claim C6, as the code has it. Appending with \<^verbatim>\<open>recordResult\<close> a result that is not older than
  the entries of a series that is non-decreasing in timestamp leaves the series non-decreasing;
  the entries removed are a front part of the series and are older than the cutoff handed to
  \<^verbatim>\<open>recordResult\<close>, and every retained entry has a timestamp of at least that cutoff. The cutoff
  is an argument: the caller computes it from the clock at the start of its cycle, so the bound
  is the start of the cycle minus the retention window, not the time of the append minus the
  retention window. Loading with \<^verbatim>\<open>loadHistory\<close> replaces the series of a known key found in the
  file by the persisted entries with a timestamp greater than the time of the load minus the
  retention window, in their persisted order, so the series is non-decreasing if the persisted
  one was.
\<close>

theorem history_series_after_append_and_load:
  "(history w (historyKey n u) = Some checks \<and> sorted (map timestamp checks)
      \<and> (\<forall>c \<in> set checks. timestamp c \<le> timestamp result)
    \<longrightarrow> (\<exists>dropped kept.
           checks @ [result] = dropped @ kept
           \<and> history (recordResult n u result cutoff w) (historyKey n u) = Some kept
           \<and> (\<forall>c \<in> set dropped. timestamp c < cutoff)
           \<and> sorted (map timestamp kept)
           \<and> (\<forall>c \<in> set kept. cutoff \<le> timestamp c)))
   \<and> (history w key \<noteq> None \<and> distinct (map fst entries) \<and> (key, persisted) \<in> set entries
    \<longrightarrow> (\<exists>kept.
           history (loadHistory (Some entries) w) key = Some kept
           \<and> kept = filter (\<lambda>c. timestamp c > now w - HISTORY_MAX_AGE_MS) persisted
           \<and> (\<forall>c \<in> set kept. timestamp c \<ge> now w - HISTORY_MAX_AGE_MS)
           \<and> (sorted (map timestamp persisted) \<longrightarrow> sorted (map timestamp kept))))"
proof (intro conjI impI)
  assume a: "history w (historyKey n u) = Some checks \<and> sorted (map timestamp checks)
      \<and> (\<forall>c \<in> set checks. timestamp c \<le> timestamp result)"
  let ?new = "checks @ [result]"
  have srt: "sorted (map timestamp ?new)"
    using a by (auto simp add: sorted_append)
  obtain dropped where d: "?new = dropped @ trimOld cutoff ?new"
    "\<forall>c \<in> set dropped. timestamp c < cutoff"
    using trimOld_split [of ?new cutoff] by blast
  have h: "history (recordResult n u result cutoff w) (historyKey n u) = Some (trimOld cutoff ?new)"
    using a by (simp add: recordResult_history_same)
  have s: "sorted (map timestamp (trimOld cutoff ?new))"
    using srt by (rule trimOld_sorted)
  have f: "\<forall>c \<in> set (trimOld cutoff ?new). cutoff \<le> timestamp c"
    using trimOld_fresh [OF srt] by blast
  show "\<exists>dropped kept.
           checks @ [result] = dropped @ kept
           \<and> history (recordResult n u result cutoff w) (historyKey n u) = Some kept
           \<and> (\<forall>c \<in> set dropped. timestamp c < cutoff)
           \<and> sorted (map timestamp kept)
           \<and> (\<forall>c \<in> set kept. cutoff \<le> timestamp c)"
    using d h s f by blast
next
  assume a: "history w key \<noteq> None \<and> distinct (map fst entries) \<and> (key, persisted) \<in> set entries"
  let ?cutoff = "now w - HISTORY_MAX_AGE_MS"
  let ?kept = "filter (\<lambda>c. timestamp c > ?cutoff) persisted"
  have "loadEntries ?cutoff entries (history w) key = Some ?kept"
    using a by (intro loadEntries_found) simp_all
  then have h: "history (loadHistory (Some entries) w) key = Some ?kept"
    by (simp add: loadHistory_def)
  have f: "\<forall>c \<in> set ?kept. timestamp c \<ge> ?cutoff" by auto
  have s: "sorted (map timestamp persisted) \<longrightarrow> sorted (map timestamp ?kept)"
    by (simp add: sorted_filter)
  show "\<exists>kept.
           history (loadHistory (Some entries) w) key = Some kept
           \<and> kept = filter (\<lambda>c. timestamp c > now w - HISTORY_MAX_AGE_MS) persisted
           \<and> (\<forall>c \<in> set kept. timestamp c \<ge> now w - HISTORY_MAX_AGE_MS)
           \<and> (sorted (map timestamp persisted) \<longrightarrow> sorted (map timestamp kept))"
    using h f s by blast
qed

lemma agingWorld_fields:
  "history agingWorld (historyKey ''com.example/solo'' ''https://a.example/mcp'')
   = Some [okCheck 1699990000000, okCheck 1700000000000]"
  "now agingWorld = 1700086399990"
  "probed agingWorld = []"
  "probeInProgress agingWorld = False"
  by (simp_all add: agingWorld_def startWorld_def)

lemma agingWorld_cycle_task:
  "providerTask steadyRuntime (1700086399990 - HISTORY_MAX_AGE_MS) soloProvider
     (agingWorld\<lparr>probeInProgress := True, skipCount := 0, probeStartedAt := Some 1700086399990\<rparr>)
   = agingWorld\<lparr>probeInProgress := True, skipCount := 0, probeStartedAt := Some 1700086399990,
       now := 1700086400190,
       probed := [\<lparr>url = ''https://a.example/mcp'', transport = ''streamable-http'',
                   expectAuth = False\<rparr>],
       history := (history agingWorld)
         (historyKey ''com.example/solo'' ''https://a.example/mcp'' \<mapsto>
            [okCheck 1700000000000, okCheck 1700086399990])\<rparr>"
  by (simp add: providerTask_def soloProvider_def remoteA_def probeRemote_def remoteConfig_def
      steadyRuntime_def
      probeServer_def raceTimeout_def doProbe_def healthyEnv_def withTimestamp_record
      recordResult_def agingWorld_fields okCheck_def HISTORY_MAX_AGE_MS_def Let_def)

lemma agingWorld_cycle:
  "history (probeAll steadyRuntime [soloProvider] agingWorld)
     (historyKey ''com.example/solo'' ''https://a.example/mcp'')
   = Some [okCheck 1700000000000, okCheck 1700086399990]"
  "now (probeAll steadyRuntime [soloProvider] agingWorld) = 1700086400190"
  by (simp_all add: probeAll_def agingWorld_fields agingWorld_cycle_task Let_def)

theorem history_series_after_append_and_load_witness:
  "history agingWorld (historyKey ''com.example/solo'' ''https://a.example/mcp'')
     = Some [okCheck 1699990000000, okCheck 1700000000000]
   \<and> history (recordResult ''com.example/solo'' ''https://a.example/mcp''
                (okCheck 1700086399990) 1699999999990 agingWorld)
       (historyKey ''com.example/solo'' ''https://a.example/mcp'')
     = Some [okCheck 1700000000000, okCheck 1700086399990]
   \<and> history (loadHistory (Some persistedFile) (startWorld [soloProvider] 1700086400000))
       (historyKey ''com.example/solo'' ''https://a.example/mcp'')
     = Some [okCheck 1700050000000]"
  using
    history_series_after_append_and_load
      [where w = agingWorld and n = "''com.example/solo''" and u = "''https://a.example/mcp''"
         and checks = "[okCheck 1699990000000, okCheck 1700000000000]"
         and result = "okCheck 1700086399990" and cutoff = 1699999999990]
    history_series_after_append_and_load
      [where w = "startWorld [soloProvider] 1700086400000"
         and key = "historyKey ''com.example/solo'' ''https://a.example/mcp''"
         and entries = persistedFile
         and persisted = "[okCheck 1699990000000, okCheck 1700050000000]"]
  by (simp add: agingWorld_fields recordResult_def loadHistory_def persistedFile_def
      startWorld_def initHistory_def soloProvider_def remoteA_def okCheck_def
      HISTORY_MAX_AGE_MS_def)

text \<open>
  Claim C6 as stated fails. In the cycle of \<open>agingWorld\<close> the cutoff is computed when the cycle
  starts, the probe takes 200 ms, and after the append the series still holds the result of
  1700000000000, which is then older than the time of the append minus the retention window.
  A result that was started before the latest entry and is appended after it (a full probe on
  demand that overlaps the cycle) leaves the series decreasing.
\<close>

theorem history_series_retention_counterexample:
  "history (probeAll steadyRuntime [soloProvider] agingWorld)
     (historyKey ''com.example/solo'' ''https://a.example/mcp'')
     = Some [okCheck 1700000000000, okCheck 1700086399990]
   \<and> now (probeAll steadyRuntime [soloProvider] agingWorld) = 1700086400190
   \<and> timestamp (okCheck 1700000000000)
       < now (probeAll steadyRuntime [soloProvider] agingWorld) - HISTORY_MAX_AGE_MS
   \<and> history (recordResult ''com.example/solo'' ''https://a.example/mcp''
                (okCheck 1700086399000) 1699999999000
                (probeAll steadyRuntime [soloProvider] agingWorld))
       (historyKey ''com.example/solo'' ''https://a.example/mcp'')
     = Some [okCheck 1700000000000, okCheck 1700086399990, okCheck 1700086399000]
   \<and> \<not> sorted (map timestamp
         [okCheck 1700000000000, okCheck 1700086399990, okCheck 1700086399000])"
  by (simp add: agingWorld_cycle recordResult_history_same)
     (simp add: okCheck_def HISTORY_MAX_AGE_MS_def)

section \<open>Short-circuit probing\<close>

lemma shuffle_loop_mset:
  "i < length a \<Longrightarrow> mset (fst (shuffle_loop rnd d i a)) = mset a"
proof (induction i arbitrary: d a)
  case 0
  show ?case by simp
next
  case (Suc i')
  let ?j = "rnd d mod (Suc i' + 1)"
  let ?a = "a[Suc i' := a ! ?j, ?j := a ! Suc i']"
  have j: "?j < length a"
  proof -
    have "?j < Suc i' + 1" by (rule mod_less_divisor) simp
    with Suc.prems show ?thesis by linarith
  qed
  have "mset ?a = mset a"
    using j Suc.prems by (rule mset_swap)
  moreover have "i' < length ?a" using Suc.prems by simp
  then have "mset (fst (shuffle_loop rnd (d + 1) i' ?a)) = mset ?a"
    by (rule Suc.IH)
  ultimately show ?case by (simp add: Let_def)
qed

lemma shuffle_mset: "mset (fst (shuffle rnd d arr)) = mset arr"
proof (cases arr)
  case Nil
  then show ?thesis by (simp add: shuffle_def)
next
  case (Cons x xs)
  then have "length arr - 1 < length arr" by simp
  then show ?thesis unfolding shuffle_def by (rule shuffle_loop_mset)
qed

lemma historyKey_inj: "historyKey n u = historyKey n u' \<longleftrightarrow> u = u'"
  by (simp add: historyKey_def)

lemma latestCheck_cong: "history w' key = history w key \<Longrightarrow> latestCheck w' key = latestCheck w key"
  by (simp add: latestCheck_def)

lemma recordResult_latest:
  assumes "history w (historyKey n u) \<noteq> None" and "cutoff \<le> timestamp result"
  shows "latestCheck (recordResult n u result cutoff w) (historyKey n u) = Some result"
proof -
  from assms(1) obtain checks where c: "history w (historyKey n u) = Some checks" by auto
  let ?kept = "trimOld cutoff (checks @ [result])"
  have k: "?kept \<noteq> []" "last ?kept = result"
    using trimOld_keeps_last [OF assms(2), of checks] by simp_all
  have "history (recordResult n u result cutoff w) (historyKey n u) = Some ?kept"
    using c by (rule recordResult_history_same)
  then show ?thesis
    using k by (simp add: latestCheck_def last_conv_nth)
qed

lemma timestamp_probeServer: "timestamp (probeServer ms cfg env ts) = ts"
  by (simp add: probeServer_def timestamp_withTimestamp split: sum.split)

lemma probeRemote_result:
  "fst (probeRemote rt provider remote w)
   = probeServer (PROBE_TIMEOUT_MS rt) (remoteConfig remote) (net rt (length (probed w))) (now w)"
  by (simp add: probeRemote_def Let_def)

lemma probeRemote_world:
  "history (snd (probeRemote rt provider remote w)) = history w"
  "probed (snd (probeRemote rt provider remote w)) = probed w @ [remoteConfig remote]"
  "now w \<le> now (snd (probeRemote rt provider remote w))"
  by (simp_all add: probeRemote_def Let_def)

text \<open>The loop once a down result has been seen: nothing is probed any more.\<close>

lemma probeMultiRemote_loop_hit:
  assumes "distinct (map url rs)"
    and "\<forall>r \<in> set rs. history w (historyKey (registryName provider) (url r)) \<noteq> None"
    and "cutoff \<le> now w"
  shows "probed (probeMultiRemote_loop rt provider cutoff rs True w) = probed w
    \<and> now (probeMultiRemote_loop rt provider cutoff rs True w) = now w
    \<and> (\<forall>r \<in> set rs.
          latestCheck (probeMultiRemote_loop rt provider cutoff rs True w)
            (historyKey (registryName provider) (url r)) = Some (shortCircuitResult r (now w)))
    \<and> (\<forall>u. u \<notin> url ` set rs \<longrightarrow>
          history (probeMultiRemote_loop rt provider cutoff rs True w)
            (historyKey (registryName provider) u)
          = history w (historyKey (registryName provider) u))
    \<and> (\<forall>k. history (probeMultiRemote_loop rt provider cutoff rs True w) k = None
             \<longleftrightarrow> history w k = None)"
  using assms
proof (induction rs arbitrary: w)
  case Nil
  show ?case by simp
next
  case (Cons r rest)
  let ?n = "registryName provider"
  let ?w1 = "recordResult ?n (url r) (shortCircuitResult r (now w)) cutoff w"
  let ?w' = "probeMultiRemote_loop rt provider cutoff rest True ?w1"
  have step: "probeMultiRemote_loop rt provider cutoff (r # rest) True w = ?w'"
    by simp
  have now1: "now ?w1 = now w" and probed1: "probed ?w1 = probed w"
    by (simp_all add: recordResult_fields)
  have none1: "history ?w1 k = None \<longleftrightarrow> history w k = None" for k
    by (rule recordResult_history_None)
  have d: "distinct (map url rest)" and notin: "url r \<notin> url ` set rest"
    using Cons.prems(1) by simp_all
  have keys1: "\<forall>x \<in> set rest. history ?w1 (historyKey ?n (url x)) \<noteq> None"
    using Cons.prems(2) by (simp add: none1)
  have cut1: "cutoff \<le> now ?w1" using Cons.prems(3) by (simp add: now1)
  note IH = Cons.IH [OF d keys1 cut1]
  have ts: "cutoff \<le> timestamp (shortCircuitResult r (now w))"
    using Cons.prems(3) by (simp add: shortCircuitResult_def)
  have "history w (historyKey ?n (url r)) \<noteq> None" using Cons.prems(2) by simp
  then have latest1: "latestCheck ?w1 (historyKey ?n (url r)) = Some (shortCircuitResult r (now w))"
    using ts by (rule recordResult_latest)
  have keep: "history ?w' (historyKey ?n (url r)) = history ?w1 (historyKey ?n (url r))"
    using IH notin by blast
  have a: "probed ?w' = probed w" using IH probed1 by simp
  have b: "now ?w' = now w" using IH now1 by simp
  have c: "\<forall>x \<in> set (r # rest).
      latestCheck ?w' (historyKey ?n (url x)) = Some (shortCircuitResult x (now w))"
  proof
    fix x assume "x \<in> set (r # rest)"
    then consider "x = r" | "x \<in> set rest" by auto
    then show "latestCheck ?w' (historyKey ?n (url x)) = Some (shortCircuitResult x (now w))"
    proof cases
      case 1
      then show ?thesis using latestCheck_cong [OF keep] latest1 by simp
    next
      case 2
      then show ?thesis using IH now1 by simp
    qed
  qed
  have e: "\<forall>u. u \<notin> url ` set (r # rest) \<longrightarrow>
      history ?w' (historyKey ?n u) = history w (historyKey ?n u)"
  proof (intro allI impI)
    fix u assume u: "u \<notin> url ` set (r # rest)"
    then have "u \<notin> url ` set rest" and ne: "historyKey ?n u \<noteq> historyKey ?n (url r)"
      by (auto simp add: historyKey_inj)
    then have "history ?w' (historyKey ?n u) = history ?w1 (historyKey ?n u)"
      using IH by blast
    also have "\<dots> = history w (historyKey ?n u)"
      using ne by (rule recordResult_history_other)
    finally show "history ?w' (historyKey ?n u) = history w (historyKey ?n u)" .
  qed
  have f: "\<forall>k. history ?w' k = None \<longleftrightarrow> history w k = None"
    using IH none1 by simp
  show ?case
    unfolding step using a b c e f by blast
qed

text \<open>The loop while no down result has been seen.\<close>

lemma probeMultiRemote_loop_probe:
  assumes "distinct (map url rs)"
    and "\<forall>r \<in> set rs. history w (historyKey (registryName provider) (url r)) \<noteq> None"
    and "cutoff \<le> now w"
  shows "\<exists>pre post. rs = pre @ post \<and> (post \<noteq> [] \<longrightarrow> pre \<noteq> [])
    \<and> probed (probeMultiRemote_loop rt provider cutoff rs False w)
        = probed w @ map remoteConfig pre
    \<and> (\<forall>i < length pre. \<exists>t res. now w \<le> t
          \<and> res = probeServer (PROBE_TIMEOUT_MS rt) (remoteConfig (pre ! i))
                    (net rt (length (probed w) + i)) t
          \<and> latestCheck (probeMultiRemote_loop rt provider cutoff rs False w)
                (historyKey (registryName provider) (url (pre ! i))) = Some res
          \<and> (Suc i < length pre \<longrightarrow> status res \<noteq> Down)
          \<and> (Suc i = length pre \<and> post \<noteq> [] \<longrightarrow> status res = Down))
    \<and> (\<forall>r \<in> set post.
          latestCheck (probeMultiRemote_loop rt provider cutoff rs False w)
            (historyKey (registryName provider) (url r))
          = Some (shortCircuitResult r
                    (now (probeMultiRemote_loop rt provider cutoff rs False w))))
    \<and> (\<forall>u. u \<notin> url ` set rs \<longrightarrow>
          history (probeMultiRemote_loop rt provider cutoff rs False w)
            (historyKey (registryName provider) u)
          = history w (historyKey (registryName provider) u))
    \<and> (\<forall>k. history (probeMultiRemote_loop rt provider cutoff rs False w) k = None
             \<longleftrightarrow> history w k = None)
    \<and> now w \<le> now (probeMultiRemote_loop rt provider cutoff rs False w)"
  using assms
proof (induction rs arbitrary: w)
  case Nil
  show ?case by simp
next
  case (Cons r rest)
  let ?n = "registryName provider"
  let ?T = "PROBE_TIMEOUT_MS rt"
  let ?key = "\<lambda>x. historyKey ?n (url x)"
  define result where "result = fst (probeRemote rt provider r w)"
  define w1 where "w1 = snd (probeRemote rt provider r w)"
  define w2 where "w2 = recordResult ?n (url r) result cutoff w1"
  define w' where "w' = probeMultiRemote_loop rt provider cutoff (r # rest) False w"
  have step: "w' = probeMultiRemote_loop rt provider cutoff rest (status result = Down) w2"
    by (simp add: w'_def w2_def w1_def result_def Let_def case_prod_beta)
  have res: "result = probeServer ?T (remoteConfig r) (net rt (length (probed w))) (now w)"
    by (simp add: result_def probeRemote_result)
  have ts: "timestamp result = now w"
    by (simp add: res timestamp_probeServer)
  have hist1: "history w1 = history w"
    and probed1: "probed w1 = probed w @ [remoteConfig r]"
    and now1: "now w \<le> now w1"
    by (simp_all add: w1_def probeRemote_world)
  have probed2: "probed w2 = probed w @ [remoteConfig r]"
    and now2: "now w \<le> now w2"
    using probed1 now1 by (simp_all add: w2_def recordResult_fields)
  have none2: "history w2 k = None \<longleftrightarrow> history w k = None" for k
    by (simp add: w2_def recordResult_history_None hist1)
  have other2: "history w2 (historyKey ?n u) = history w (historyKey ?n u)" if "u \<noteq> url r" for u
  proof -
    have "historyKey ?n u \<noteq> historyKey ?n (url r)" using that by (simp add: historyKey_inj)
    then show ?thesis by (simp add: w2_def recordResult_history_other hist1)
  qed
  have "history w1 (?key r) \<noteq> None" using Cons.prems(2) by (simp add: hist1)
  moreover have "cutoff \<le> timestamp result" using Cons.prems(3) by (simp add: ts)
  ultimately have latest2: "latestCheck w2 (?key r) = Some result"
    unfolding w2_def by (rule recordResult_latest)
  have d: "distinct (map url rest)" and notin: "url r \<notin> url ` set rest"
    using Cons.prems(1) by simp_all
  have keys2: "\<forall>x \<in> set rest. history w2 (?key x) \<noteq> None"
    using Cons.prems(2) by (simp add: none2)
  have cut2: "cutoff \<le> now w2" using Cons.prems(3) now2 by simp
  show ?case
  proof (cases "status result = Down")
    case True
    then have w'_hit: "w' = probeMultiRemote_loop rt provider cutoff rest True w2"
      using step by simp
    note hit = probeMultiRemote_loop_hit [OF d keys2 cut2, of rt, folded w'_hit]
    have keep: "history w' (?key r) = history w2 (?key r)"
      using hit notin by blast
    have now': "now w' = now w2" using hit by blast
    have a: "r # rest = [r] @ rest" by simp
    have b: "rest \<noteq> [] \<longrightarrow> [r] \<noteq> []" by simp
    have c: "probed w' = probed w @ map remoteConfig [r]"
      using hit probed2 by simp
    have e: "\<forall>i < length [r]. \<exists>t res. now w \<le> t
          \<and> res = probeServer ?T (remoteConfig ([r] ! i)) (net rt (length (probed w) + i)) t
          \<and> latestCheck w' (?key ([r] ! i)) = Some res
          \<and> (Suc i < length [r] \<longrightarrow> status res \<noteq> Down)
          \<and> (Suc i = length [r] \<and> rest \<noteq> [] \<longrightarrow> status res = Down)"
    proof (intro allI impI)
      fix i assume "i < length [r]"
      then have i: "i = 0" by simp
      have "latestCheck w' (?key r) = Some result"
        using latestCheck_cong [OF keep] latest2 by simp
      then show "\<exists>t res. now w \<le> t
          \<and> res = probeServer ?T (remoteConfig ([r] ! i)) (net rt (length (probed w) + i)) t
          \<and> latestCheck w' (?key ([r] ! i)) = Some res
          \<and> (Suc i < length [r] \<longrightarrow> status res \<noteq> Down)
          \<and> (Suc i = length [r] \<and> rest \<noteq> [] \<longrightarrow> status res = Down)"
        using i res True by (intro exI [of _ "now w"] exI [of _ result]) simp
    qed
    have f: "\<forall>x \<in> set rest. latestCheck w' (?key x) = Some (shortCircuitResult x (now w'))"
      using hit now' by simp
    have g: "\<forall>u. u \<notin> url ` set (r # rest) \<longrightarrow>
        history w' (historyKey ?n u) = history w (historyKey ?n u)"
    proof (intro allI impI)
      fix u assume "u \<notin> url ` set (r # rest)"
      then have "u \<notin> url ` set rest" "u \<noteq> url r" by auto
      then show "history w' (historyKey ?n u) = history w (historyKey ?n u)"
        using hit other2 by simp
    qed
    have h: "\<forall>k. history w' k = None \<longleftrightarrow> history w k = None"
      using hit none2 by simp
    have l: "now w \<le> now w'" using now' now2 by simp
    show ?thesis
      unfolding w'_def [symmetric]
      using a b c e f g h l by (intro exI [of _ "[r]"] exI [of _ rest] conjI)
  next
    case False
    then have w'_go: "w' = probeMultiRemote_loop rt provider cutoff rest False w2"
      using step by simp
    from Cons.IH [OF d keys2 cut2, folded w'_go] obtain pre post where
      split: "rest = pre @ post" and
      ne: "post \<noteq> [] \<longrightarrow> pre \<noteq> []" and
      pr: "probed w' = probed w2 @ map remoteConfig pre" and
      ix: "\<forall>i < length pre. \<exists>t res. now w2 \<le> t
            \<and> res = probeServer ?T (remoteConfig (pre ! i)) (net rt (length (probed w2) + i)) t
            \<and> latestCheck w' (?key (pre ! i)) = Some res
            \<and> (Suc i < length pre \<longrightarrow> status res \<noteq> Down)
            \<and> (Suc i = length pre \<and> post \<noteq> [] \<longrightarrow> status res = Down)" and
      sc: "\<forall>x \<in> set post. latestCheck w' (?key x) = Some (shortCircuitResult x (now w'))" and
      fr: "\<forall>u. u \<notin> url ` set rest \<longrightarrow>
            history w' (historyKey ?n u) = history w2 (historyKey ?n u)" and
      nn: "\<forall>k. history w' k = None \<longleftrightarrow> history w2 k = None" and
      nw: "now w2 \<le> now w'"
      by blast
    have keep: "history w' (?key r) = history w2 (?key r)"
      using fr notin by blast
    have a: "r # rest = (r # pre) @ post" using split by simp
    have b: "post \<noteq> [] \<longrightarrow> r # pre \<noteq> []" by simp
    have c: "probed w' = probed w @ map remoteConfig (r # pre)"
      using pr probed2 by simp
    have e: "\<forall>i < length (r # pre). \<exists>t res. now w \<le> t
          \<and> res = probeServer ?T (remoteConfig ((r # pre) ! i)) (net rt (length (probed w) + i)) t
          \<and> latestCheck w' (?key ((r # pre) ! i)) = Some res
          \<and> (Suc i < length (r # pre) \<longrightarrow> status res \<noteq> Down)
          \<and> (Suc i = length (r # pre) \<and> post \<noteq> [] \<longrightarrow> status res = Down)"
    proof (intro allI impI)
      fix i assume i: "i < length (r # pre)"
      show "\<exists>t res. now w \<le> t
          \<and> res = probeServer ?T (remoteConfig ((r # pre) ! i)) (net rt (length (probed w) + i)) t
          \<and> latestCheck w' (?key ((r # pre) ! i)) = Some res
          \<and> (Suc i < length (r # pre) \<longrightarrow> status res \<noteq> Down)
          \<and> (Suc i = length (r # pre) \<and> post \<noteq> [] \<longrightarrow> status res = Down)"
      proof (cases i)
        case 0
        have "latestCheck w' (?key r) = Some result"
          using latestCheck_cong [OF keep] latest2 by simp
        moreover have "\<not> (Suc 0 = length (r # pre) \<and> post \<noteq> [])"
          using ne by auto
        ultimately show ?thesis
          using 0 res False by (intro exI [of _ "now w"] exI [of _ result]) simp
      next
        case (Suc i')
        with i have i': "i' < length pre" by simp
        from ix [rule_format, OF i'] obtain t res' where
          t: "now w2 \<le> t" and
          r': "res' = probeServer ?T (remoteConfig (pre ! i')) (net rt (length (probed w2) + i')) t" and
          l': "latestCheck w' (?key (pre ! i')) = Some res'" and
          s1: "Suc i' < length pre \<longrightarrow> status res' \<noteq> Down" and
          s2: "Suc i' = length pre \<and> post \<noteq> [] \<longrightarrow> status res' = Down"
          by blast
        have idx: "length (probed w2) + i' = length (probed w) + i"
          using probed2 Suc by simp
        have "now w \<le> t" using now2 t by simp
        then show ?thesis
          using Suc r' l' s1 s2 idx by (intro exI [of _ t] exI [of _ res']) simp
      qed
    qed
    have g: "\<forall>u. u \<notin> url ` set (r # rest) \<longrightarrow>
        history w' (historyKey ?n u) = history w (historyKey ?n u)"
    proof (intro allI impI)
      fix u assume "u \<notin> url ` set (r # rest)"
      then have "u \<notin> url ` set rest" "u \<noteq> url r" by auto
      then show "history w' (historyKey ?n u) = history w (historyKey ?n u)"
        using fr other2 by simp
    qed
    have h: "\<forall>k. history w' k = None \<longleftrightarrow> history w k = None"
      using nn none2 by simp
    have l: "now w \<le> now w'" using nw now2 by simp
    show ?thesis
      unfolding w'_def [symmetric]
      using a b c e sc g h l by (intro exI [of _ "r # pre"] exI [of _ post] conjI)
  qed
qed

text \<open>
  Claim C2. For a provider with several endpoints the task of the probe cycle shuffles the
  endpoints and walks through them in the shuffled order. The endpoints of a front part \<open>pre\<close>
  of that order are probed one after the other, in order (the log \<open>probed\<close> grows by exactly
  their configurations), and the result of each probe is recorded as the latest entry of the
  endpoint's series. No result before the last one of \<open>pre\<close> is down; if endpoints remain
  (\<open>post\<close>), the last result of \<open>pre\<close> is down: probing has stopped at the first down result.
  No endpoint of \<open>post\<close> is probed; each gets as latest entry the result with health unknown,
  auth protected if its auth hint is set and unknown otherwise, no latency, no tool count and
  the error text \<^verbatim>\<open>short-circuited\<close>. The endpoints have distinct URLs and a series in the
  history store, as after the start of the process, and the cutoff of the cycle is not in the
  future.
\<close>

theorem short_circuit_after_first_down:
  assumes "length (remotes provider) \<noteq> 1"
    and "distinct (map url (remotes provider))"
    and "\<forall>r \<in> set (remotes provider).
           history w (historyKey (registryName provider) (url r)) \<noteq> None"
    and "cutoff \<le> now w"
  shows "mset (fst (shuffle (random rt) (draws w) (remotes provider))) = mset (remotes provider)
    \<and> (\<exists>pre post.
          fst (shuffle (random rt) (draws w) (remotes provider)) = pre @ post
          \<and> (post \<noteq> [] \<longrightarrow> pre \<noteq> [])
          \<and> probed (providerTask rt cutoff provider w) = probed w @ map remoteConfig pre
          \<and> (\<forall>i < length pre. \<exists>t res. now w \<le> t
                \<and> res = probeServer (PROBE_TIMEOUT_MS rt) (remoteConfig (pre ! i))
                          (net rt (length (probed w) + i)) t
                \<and> latestCheck (providerTask rt cutoff provider w)
                      (historyKey (registryName provider) (url (pre ! i))) = Some res
                \<and> (Suc i < length pre \<longrightarrow> status res \<noteq> Down)
                \<and> (Suc i = length pre \<and> post \<noteq> [] \<longrightarrow> status res = Down))
          \<and> (\<forall>r \<in> set post.
                latestCheck (providerTask rt cutoff provider w)
                  (historyKey (registryName provider) (url r))
                = Some \<lparr>status = Unknown,
                        auth = (if expectAuth r then Protected else AuthUnknown),
                        latencyMs = None, toolCount = None, error = Some ''short-circuited'',
                        timestamp = now (providerTask rt cutoff provider w)\<rparr>))"
proof -
  define shuffled where "shuffled = fst (shuffle (random rt) (draws w) (remotes provider))"
  define d where "d = snd (shuffle (random rt) (draws w) (remotes provider))"
  define w0 where "w0 = w\<lparr>draws := d\<rparr>"
  have task: "providerTask rt cutoff provider w
              = probeMultiRemote_loop rt provider cutoff shuffled False w0"
    using assms(1)
    by (simp add: providerTask_def probeMultiRemote_def shuffled_def d_def w0_def case_prod_beta)
  have perm: "mset shuffled = mset (remotes provider)"
    unfolding shuffled_def by (rule shuffle_mset)
  then have "mset (map url shuffled) = mset (map url (remotes provider))"
    by simp
  from mset_eq_imp_distinct_iff [OF this] have dist: "distinct (map url shuffled)"
    using assms(2) by blast
  have "set shuffled = set (remotes provider)"
    using perm by (rule mset_eq_setD)
  then have keys: "\<forall>r \<in> set shuffled. history w0 (historyKey (registryName provider) (url r)) \<noteq> None"
    using assms(3) by (simp add: w0_def)
  have cut: "cutoff \<le> now w0" using assms(4) by (simp add: w0_def)
  have w0: "probed w0 = probed w" "now w0 = now w" by (simp_all add: w0_def)
  from probeMultiRemote_loop_probe [OF dist keys cut, of rt, folded task, unfolded w0]
  obtain pre post where
    "shuffled = pre @ post" "post \<noteq> [] \<longrightarrow> pre \<noteq> []"
    "probed (providerTask rt cutoff provider w) = probed w @ map remoteConfig pre"
    "\<forall>i < length pre. \<exists>t res. now w \<le> t
          \<and> res = probeServer (PROBE_TIMEOUT_MS rt) (remoteConfig (pre ! i))
                    (net rt (length (probed w) + i)) t
          \<and> latestCheck (providerTask rt cutoff provider w)
                (historyKey (registryName provider) (url (pre ! i))) = Some res
          \<and> (Suc i < length pre \<longrightarrow> status res \<noteq> Down)
          \<and> (Suc i = length pre \<and> post \<noteq> [] \<longrightarrow> status res = Down)"
    "\<forall>r \<in> set post.
          latestCheck (providerTask rt cutoff provider w)
            (historyKey (registryName provider) (url r))
          = Some (shortCircuitResult r (now (providerTask rt cutoff provider w)))"
    by blast
  then show ?thesis
    using perm unfolding shuffled_def [symmetric] shortCircuitResult_def
    by (intro conjI exI [of _ pre] exI [of _ post])
qed

lemma trio_shuffle:
  "shuffle (random secondDownRuntime) 0 (remotes trioProvider) = ([remoteA, remoteB, remoteC], 2)"
  by (simp add: shuffle_def trioProvider_def secondDownRuntime_def eval_nat_numeral Let_def)

lemma trio_probes:
  "probeServer 10000 (remoteConfig remoteA) (healthyEnv 120 3) t
   = \<lparr>status = Healthy, auth = Open, latencyMs = Some 120, toolCount = Some 3, error = None,
      timestamp = t\<rparr>"
  "probeServer 10000 (remoteConfig remoteB) refusedEnv t
   = \<lparr>status = Down, auth = AuthUnknown, latencyMs = None, toolCount = None,
      error = Some ''fetch failed'', timestamp = t\<rparr>"
  by (simp_all add: probeServer_def raceTimeout_def doProbe_def healthyEnv_def refusedEnv_def
      withTimestamp_record classifyConnectError_def errText_def codeBetween_def
      remoteConfig_def remoteA_def remoteB_def Let_def)

lemma trio_task:
  "probed (providerTask secondDownRuntime (1700000000000 - HISTORY_MAX_AGE_MS) trioProvider
            (startWorld [trioProvider] 1700000000000))
   = [remoteConfig remoteA, remoteConfig remoteB]"
  "latestCheck (providerTask secondDownRuntime (1700000000000 - HISTORY_MAX_AGE_MS) trioProvider
                 (startWorld [trioProvider] 1700000000000))
     (historyKey (registryName trioProvider) (url remoteA))
   = Some \<lparr>status = Healthy, auth = Open, latencyMs = Some 120, toolCount = Some 3,
           error = None, timestamp = 1700000000000\<rparr>"
  "latestCheck (providerTask secondDownRuntime (1700000000000 - HISTORY_MAX_AGE_MS) trioProvider
                 (startWorld [trioProvider] 1700000000000))
     (historyKey (registryName trioProvider) (url remoteB))
   = Some \<lparr>status = Down, auth = AuthUnknown, latencyMs = None, toolCount = None,
           error = Some ''fetch failed'', timestamp = 1700000000200\<rparr>"
  "latestCheck (providerTask secondDownRuntime (1700000000000 - HISTORY_MAX_AGE_MS) trioProvider
                 (startWorld [trioProvider] 1700000000000))
     (historyKey (registryName trioProvider) (url remoteC))
   = Some \<lparr>status = Unknown, auth = Protected, latencyMs = None, toolCount = None,
           error = Some ''short-circuited'', timestamp = 1700000000215\<rparr>"
proof -
  let ?w = "startWorld [trioProvider] 1700000000000"
  let ?c = "1700000000000 - HISTORY_MAX_AGE_MS"
  have sh: "shuffle (random secondDownRuntime) (draws ?w) (remotes trioProvider)
            = ([remoteA, remoteB, remoteC], 2)"
    using trio_shuffle by (simp add: startWorld_def)
  have len: "length (remotes trioProvider) \<noteq> 1" by (simp add: trioProvider_def)
  have task: "providerTask secondDownRuntime ?c trioProvider ?w
      = probeMultiRemote_loop secondDownRuntime trioProvider ?c [remoteA, remoteB, remoteC] False
          (?w\<lparr>draws := 2\<rparr>)"
    using len by (simp add: providerTask_def probeMultiRemote_def sh)
  have rt: "PROBE_TIMEOUT_MS secondDownRuntime = 10000"
    "net secondDownRuntime 0 = healthyEnv 120 3" "net secondDownRuntime (Suc 0) = refusedEnv"
    by (simp_all add: secondDownRuntime_def)
  have took: "tookMs (healthyEnv 120 3) = 200" "tookMs refusedEnv = 15"
    by (simp_all add: healthyEnv_def refusedEnv_def)
  have w: "probed ?w = []" "now ?w = 1700000000000"
    "history ?w = initHistory [trioProvider]"
    by (simp_all add: startWorld_def)
  have keys: "registryName trioProvider = ''com.example/trio''"
    "url remoteA = ''https://a.example/mcp''" "url remoteB = ''https://b.example/mcp''"
    "url remoteC = ''https://c.example/sse''" "expectAuth remoteC"
    by (simp_all add: trioProvider_def remoteA_def remoteB_def remoteC_def)
  have init: "initHistory [trioProvider]
      = [historyKey ''com.example/trio'' ''https://c.example/sse'' \<mapsto> [],
         historyKey ''com.example/trio'' ''https://a.example/mcp'' \<mapsto> [],
         historyKey ''com.example/trio'' ''https://b.example/mcp'' \<mapsto> []]"
    by (simp add: initHistory_def trioProvider_def remoteA_def remoteB_def remoteC_def)
  show "probed (providerTask secondDownRuntime ?c trioProvider ?w)
        = [remoteConfig remoteA, remoteConfig remoteB]"
    unfolding task
    by (simp add: probeRemote_def rt took w keys init trio_probes recordResult_def
        shortCircuitResult_def historyKey_def HISTORY_MAX_AGE_MS_def Let_def)
  show "latestCheck (providerTask secondDownRuntime ?c trioProvider ?w)
          (historyKey (registryName trioProvider) (url remoteA))
        = Some \<lparr>status = Healthy, auth = Open, latencyMs = Some 120, toolCount = Some 3,
                error = None, timestamp = 1700000000000\<rparr>"
    unfolding task
    by (simp add: probeRemote_def rt took w keys init trio_probes recordResult_def
        shortCircuitResult_def historyKey_def HISTORY_MAX_AGE_MS_def latestCheck_def Let_def)
  show "latestCheck (providerTask secondDownRuntime ?c trioProvider ?w)
          (historyKey (registryName trioProvider) (url remoteB))
        = Some \<lparr>status = Down, auth = AuthUnknown, latencyMs = None, toolCount = None,
                error = Some ''fetch failed'', timestamp = 1700000000200\<rparr>"
    unfolding task
    by (simp add: probeRemote_def rt took w keys init trio_probes recordResult_def
        shortCircuitResult_def historyKey_def HISTORY_MAX_AGE_MS_def latestCheck_def Let_def)
  show "latestCheck (providerTask secondDownRuntime ?c trioProvider ?w)
          (historyKey (registryName trioProvider) (url remoteC))
        = Some \<lparr>status = Unknown, auth = Protected, latencyMs = None, toolCount = None,
                error = Some ''short-circuited'', timestamp = 1700000000215\<rparr>"
    unfolding task
    by (simp add: probeRemote_def rt took w keys init trio_probes recordResult_def
        shortCircuitResult_def historyKey_def HISTORY_MAX_AGE_MS_def latestCheck_def Let_def)
qed

theorem short_circuit_after_first_down_witness:
  "length (remotes trioProvider) \<noteq> 1
   \<and> distinct (map url (remotes trioProvider))
   \<and> 1700000000000 - HISTORY_MAX_AGE_MS \<le> now (startWorld [trioProvider] 1700000000000)
   \<and> fst (shuffle (random secondDownRuntime) 0 (remotes trioProvider))
       = [remoteA, remoteB, remoteC]
   \<and> probed (providerTask secondDownRuntime (1700000000000 - HISTORY_MAX_AGE_MS) trioProvider
              (startWorld [trioProvider] 1700000000000))
       = [remoteConfig remoteA, remoteConfig remoteB]
   \<and> latestCheck (providerTask secondDownRuntime (1700000000000 - HISTORY_MAX_AGE_MS)
                   trioProvider (startWorld [trioProvider] 1700000000000))
        (historyKey (registryName trioProvider) (url remoteA))
       = Some \<lparr>status = Healthy, auth = Open, latencyMs = Some 120, toolCount = Some 3,
               error = None, timestamp = 1700000000000\<rparr>
   \<and> latestCheck (providerTask secondDownRuntime (1700000000000 - HISTORY_MAX_AGE_MS)
                   trioProvider (startWorld [trioProvider] 1700000000000))
        (historyKey (registryName trioProvider) (url remoteB))
       = Some \<lparr>status = Down, auth = AuthUnknown, latencyMs = None, toolCount = None,
               error = Some ''fetch failed'', timestamp = 1700000000200\<rparr>
   \<and> latestCheck (providerTask secondDownRuntime (1700000000000 - HISTORY_MAX_AGE_MS)
                   trioProvider (startWorld [trioProvider] 1700000000000))
        (historyKey (registryName trioProvider) (url remoteC))
       = Some \<lparr>status = Unknown, auth = Protected, latencyMs = None, toolCount = None,
               error = Some ''short-circuited'', timestamp = 1700000000215\<rparr>"
proof -
  have h1: "length (remotes trioProvider) \<noteq> 1"
    by (simp add: trioProvider_def)
  have h2: "distinct (map url (remotes trioProvider))"
    by (simp add: trioProvider_def remoteA_def remoteB_def remoteC_def)
  have h3: "\<forall>r \<in> set (remotes trioProvider).
      history (startWorld [trioProvider] 1700000000000)
        (historyKey (registryName trioProvider) (url r)) \<noteq> None"
  proof -
    have rem: "remotes trioProvider = [remoteC, remoteA, remoteB]"
      by (simp add: trioProvider_def)
    show ?thesis unfolding rem by (simp add: trio_keys)
  qed
  have h4: "1700000000000 - HISTORY_MAX_AGE_MS \<le> now (startWorld [trioProvider] 1700000000000)"
    by (simp add: startWorld_def HISTORY_MAX_AGE_MS_def)
  show ?thesis
    using short_circuit_after_first_down [OF h1 h2 h3 h4, of secondDownRuntime] h1 h2 h4
    by (simp add: trio_task trio_shuffle)
qed

end
